theory Spec2Isabelle
  imports Main "HOL-Library.Word" "HOL-Library.AList"
begin

unbundle bit_operations_syntax

section \<open>Buffers and JavaScript strings\<close>

text \<open>
  A Node.js \<open>Buffer\<close> is a list of bytes. A JavaScript string is held as the bytes
  of its UTF-8 encoding, so that \<open>Buffer.from(s, 'utf8')\<close> is the identity and two
  strings are equal exactly when their byte lists are.
\<close>

type_synonym byte = "8 word"
type_synonym buffer = "byte list"
type_synonym jsstring = "byte list"

definition ascii :: "string \<Rightarrow> jsstring" where
  "ascii s = map of_char s"

definition is_ascii :: "jsstring \<Rightarrow> bool" where
  "is_ascii s = list_all (\<lambda>b. b < 0x80) s"

text \<open>\<open>buf.slice_buf(a, b)\<close> and \<open>buf.slice_buf(a)\<close>: both ends are clamped to the buffer.\<close>

definition slice_buf :: "buffer \<Rightarrow> nat \<Rightarrow> nat \<Rightarrow> buffer" where
  "slice_buf buf a b = take (b - a) (drop a buf)"

definition slice_from :: "buffer \<Rightarrow> nat \<Rightarrow> buffer" where
  "slice_from buf a = drop a buf"

text \<open>\<open>Buffer.alloc(n)\<close>: \<open>n\<close> zero bytes.\<close>

definition alloc :: "nat \<Rightarrow> buffer" where
  "alloc n = replicate n 0"

subsection \<open>Decoding bytes to a string\<close>

text \<open>
  \<open>buf.toString()\<close> and \<open>buf.toString('utf8')\<close> decode UTF-8 and put U+FFFD (bytes
  EF BF BD) for every maximal ill-formed part. \<open>utf8_need\<close> gives, for a lead byte, the
  number of continuation bytes and the range allowed for the first of them;
  \<open>utf8_conts\<close> counts how many of the expected continuation bytes are there.
\<close>

definition replacement :: jsstring where
  "replacement = [0xEF, 0xBF, 0xBD]"

definition utf8_need :: "byte \<Rightarrow> (nat \<times> byte \<times> byte) option" where
  "utf8_need b =
     (if 0xC2 \<le> b \<and> b \<le> 0xDF then Some (1, 0x80, 0xBF)
      else if b = 0xE0 then Some (2, 0xA0, 0xBF)
      else if b = 0xED then Some (2, 0x80, 0x9F)
      else if 0xE1 \<le> b \<and> b \<le> 0xEF then Some (2, 0x80, 0xBF)
      else if b = 0xF0 then Some (3, 0x90, 0xBF)
      else if b = 0xF4 then Some (3, 0x80, 0x8F)
      else if 0xF1 \<le> b \<and> b \<le> 0xF3 then Some (3, 0x80, 0xBF)
      else None)"

fun utf8_conts :: "nat \<Rightarrow> byte \<Rightarrow> byte \<Rightarrow> buffer \<Rightarrow> nat" where
  "utf8_conts 0 lo hi bs = 0"
| "utf8_conts (Suc n) lo hi [] = 0"
| "utf8_conts (Suc n) lo hi (c # cs) =
     (if lo \<le> c \<and> c \<le> hi then Suc (utf8_conts n 0x80 0xBF cs) else 0)"

function toString_utf8 :: "buffer \<Rightarrow> jsstring" where
  "toString_utf8 [] = []"
| "toString_utf8 (b # bs) =
     (if b < 0x80 then b # toString_utf8 bs
      else case utf8_need b of
        None \<Rightarrow> replacement @ toString_utf8 bs
      | Some (n, lo, hi) \<Rightarrow>
          (let k = utf8_conts n lo hi bs in
           if k = n then (b # take n bs) @ toString_utf8 (drop n bs)
           else replacement @ toString_utf8 (drop k bs)))"
  by pat_completeness auto
termination
  by (relation "measure length") auto

text \<open>
  \<open>buf.toString('ascii')\<close> clears the top bit of every byte and reads the result as
  one character per byte.
\<close>

definition toString_ascii :: "buffer \<Rightarrow> jsstring" where
  "toString_ascii bs = map (\<lambda>b. b AND 0x7F) bs"

text \<open>
  \<open>buf.write(s, 0, n)\<close> into a zeroed buffer of at least \<open>n\<close> bytes: the bytes of
  the longest prefix of whole characters of \<open>s\<close> that fits in \<open>n\<close> bytes; a character
  that does not fit is not written in part.
\<close>

definition utf8_char_len :: "byte \<Rightarrow> nat" where
  "utf8_char_len b = (if b < 0x80 then 1 else if b < 0xE0 then 2 else if b < 0xF0 then 3 else 4)"

function write_utf8 :: "jsstring \<Rightarrow> nat \<Rightarrow> buffer" where
  "write_utf8 [] n = []"
| "write_utf8 (b # bs) n =
     (let k = utf8_char_len b in
      if k \<le> n then take k (b # bs) @ write_utf8 (drop k (b # bs)) (n - k) else [])"
  by pat_completeness auto
termination
  by (relation "measure (\<lambda>(s, n). length s)") (auto simp: utf8_char_len_def)

text \<open>A number in a template string: its decimal digits.\<close>

function dec :: "nat \<Rightarrow> jsstring" where
  "dec n = (if n < 10 then [0x30 + of_nat n] else dec (n div 10) @ [0x30 + of_nat (n mod 10)])"
  by pat_completeness auto
termination
  by (relation "measure id") auto

declare dec.simps [simp del]

section \<open>Synchsafe integers (id3-audio.js)\<close>

text \<open>
  \<open>buffer[i]\<close> inside a bitwise expression: the byte as a 32-bit integer, and 0 where
  the index is out of range (\<open>undefined\<close> converts to 0).
\<close>

definition byte_at :: "buffer \<Rightarrow> nat \<Rightarrow> 32 word" where
  "byte_at b i = (if i < length b then ucast (b ! i) else 0)"

text \<open>
  \<open>_readSynchsafeInt\<close>:
  \<open>(buffer[0] << 21) | (buffer[1] << 14) | (buffer[2] << 7) | buffer[3]\<close>
  on 32-bit integers. No byte is masked.
\<close>

definition readSynchsafeInt32 :: "buffer \<Rightarrow> 32 word" where
  "readSynchsafeInt32 b =
     push_bit 21 (byte_at b 0) OR push_bit 14 (byte_at b 1) OR
     push_bit 7 (byte_at b 2) OR byte_at b 3"

definition readSynchsafeInt :: "buffer \<Rightarrow> nat" where
  "readSynchsafeInt b = nat (sint (readSynchsafeInt32 b))"

text \<open>
  \<open>_writeSynchsafeInt\<close>: the four bytes stored at \<open>offset .. offset + 3\<close>;
  \<open>value >>> k\<close> works on the value converted to an unsigned 32-bit integer.
\<close>

definition writeSynchsafeInt :: "nat \<Rightarrow> buffer" where
  "writeSynchsafeInt v =
     (let w = (word_of_nat v :: 32 word) in
      [ucast (drop_bit 21 w AND 0x7F), ucast (drop_bit 14 w AND 0x7F),
       ucast (drop_bit 7 w AND 0x7F), ucast (w AND 0x7F)])"

section \<open>Errors and JavaScript values\<close>

text \<open>
  Exceptions are values. \<open>Error m\<close> is \<open>new Error(m)\<close> thrown by the handlers;
  \<open>TypeError\<close>, \<open>RangeError\<close> and \<open>SyntaxError\<close> are thrown by the runtime;
  \<open>Wrapped p e\<close> is the handlers' rethrow \<open>new Error(p + e.message)\<close>.
\<close>

datatype error = Error string | TypeError | RangeError | SyntaxError | Wrapped string error

definition wrap :: "string \<Rightarrow> error + 'a \<Rightarrow> error + 'a" where
  "wrap p r = (case r of Inl e \<Rightarrow> Inl (Wrapped p e) | Inr v \<Rightarrow> Inr v)"

text \<open>
  The values that \<open>JSON.parse\<close> returns and the handlers pass around: primitives, plain
  objects (properties in insertion order), arrays and buffers. An array or a buffer can
  carry named properties of its own beside its elements. \<open>undefined\<close> is \<open>None\<close> of
  \<open>jsval option\<close>. Numbers are the integers.
\<close>

datatype jsval =
    JNull | JBool bool | JNum int | JStr jsstring
  | JObj "(jsstring \<times> jsval) list"
  | JArr "jsval list" "(jsstring \<times> jsval) list"
  | JBuf buffer "(jsstring \<times> jsval) list"

fun truthy :: "jsval \<Rightarrow> bool" where
  "truthy JNull = False"
| "truthy (JBool b) = b"
| "truthy (JNum n) = (n \<noteq> 0)"
| "truthy (JStr s) = (s \<noteq> [])"
| "truthy _ = True"

definition truthy_opt :: "jsval option \<Rightarrow> bool" where
  "truthy_opt v = (case v of None \<Rightarrow> False | Some x \<Rightarrow> truthy x)"

fun typeof_object :: "jsval \<Rightarrow> bool" where
  "typeof_object JNull = True"
| "typeof_object (JObj ps) = True"
| "typeof_object (JArr xs ps) = True"
| "typeof_object (JBuf bs ps) = True"
| "typeof_object _ = False"

text \<open>
  Reading a named property (the handlers read no index and no \<open>length\<close>), and assigning
  one: in a class body, which is strict code, assigning to a primitive throws.
\<close>

fun get_prop :: "jsval \<Rightarrow> jsstring \<Rightarrow> jsval option" where
  "get_prop (JObj ps) k = map_of ps k"
| "get_prop (JArr xs ps) k = map_of ps k"
| "get_prop (JBuf bs ps) k = map_of ps k"
| "get_prop _ k = None"

fun set_prop :: "jsval \<Rightarrow> jsstring \<Rightarrow> jsval \<Rightarrow> error + jsval" where
  "set_prop (JObj ps) k v = Inr (JObj (AList.update k v ps))"
| "set_prop (JArr xs ps) k v = Inr (JArr xs (AList.update k v ps))"
| "set_prop (JBuf bs ps) k v = Inr (JBuf bs (AList.update k v ps))"
| "set_prop _ k v = Inl TypeError"

text \<open>
  \<open>{ ...value }\<close>: the own properties, the elements of an array or buffer first under
  their indices. (It is applied to values that have a \<open>checksum\<close> property only, so
  never to a primitive.)
\<close>

fun indexed :: "nat \<Rightarrow> jsval list \<Rightarrow> (jsstring \<times> jsval) list" where
  "indexed i [] = []"
| "indexed i (x # xs) = (dec i, x) # indexed (Suc i) xs"

fun spread :: "jsval \<Rightarrow> (jsstring \<times> jsval) list" where
  "spread (JObj ps) = ps"
| "spread (JArr xs ps) = indexed 0 xs @ ps"
| "spread (JBuf bs ps) = indexed 0 (map (\<lambda>b. JNum (uint b)) bs) @ ps"
| "spread _ = []"

definition readUInt32BE :: "buffer \<Rightarrow> error + nat" where
  "readUInt32BE b =
     (if length b < 4 then Inl RangeError
      else Inr (unat (b ! 0) * 2 ^ 24 + unat (b ! 1) * 2 ^ 16 + unat (b ! 2) * 2 ^ 8 + unat (b ! 3)))"

definition writeUInt32BE :: "nat \<Rightarrow> error + buffer" where
  "writeUInt32BE v =
     (if v \<ge> 2 ^ 32 then Inl RangeError
      else Inr [of_nat (v div 2 ^ 24), of_nat (v div 2 ^ 16), of_nat (v div 2 ^ 8), of_nat v])"

section \<open>The ID3v2 handler (id3-audio.js)\<close>

definition AI_METADATA_FRAME :: jsstring where "AI_METADATA_FRAME = ascii ''TXXX''"
definition AI_SIGNATURE_FRAME :: jsstring where "AI_SIGNATURE_FRAME = ascii ''PRIV''"
definition AI_CHECKSUM_FRAME :: jsstring where "AI_CHECKSUM_FRAME = ascii ''TXXX''"

text \<open>
  The handler's options (\<open>version\<close>, \<open>preserveExisting\<close>; \<open>encoding\<close> is never
  read) and the options of one embedding. \<open>includeChecksum\<close> is false only when the
  caller passes \<open>false\<close>.
\<close>

record id3_options =
  id3_version :: jsstring
  id3_preserveExisting :: bool

definition id3_defaults :: id3_options where
  "id3_defaults = \<lparr>id3_version = ascii ''2.4'', id3_preserveExisting = True\<rparr>"

record embed_options =
  includeChecksum :: bool
  privateKey :: "jsstring option"

definition embed_defaults :: embed_options where
  "embed_defaults = \<lparr>includeChecksum = True, privateKey = None\<rparr>"

record frame =
  frame_id :: jsstring
  frame_size :: nat
  frame_flags :: "buffer option"
  frame_data :: buffer

record id3info =
  hasID3 :: bool
  tagSize :: nat
  version :: "jsstring option"
  flags :: "byte option"
  majorVersion :: "byte option"
  minorVersion :: "byte option"
  existingFrames :: "frame list"

definition no_id3 :: id3info where
  "no_id3 = \<lparr>hasID3 = False, tagSize = 0, version = None, flags = None,
     majorVersion = None, minorVersion = None, existingFrames = []\<rparr>"

definition parseID3Header :: "buffer \<Rightarrow> id3info" where
  "parseID3Header audioBuffer =
     (if length audioBuffer < 10 then no_id3
      else if toString_utf8 (slice_buf audioBuffer 0 3) \<noteq> ascii ''ID3'' then no_id3
      else
        (let major = audioBuffer ! 3;
             minor = audioBuffer ! 4;
             size = readSynchsafeInt (slice_buf audioBuffer 6 10)
         in \<lparr>hasID3 = True, tagSize = size + 10,
              version = Some (ascii ''2.'' @ dec (unat major) @ ascii ''.'' @ dec (unat minor)),
              flags = Some (audioBuffer ! 5),
              majorVersion = Some major, minorVersion = Some minor,
              existingFrames = []\<rparr>))"

text \<open>\<open>_readFrameSize\<close>: \<open>majorVersion >= 4\<close> is false for a missing version.\<close>

definition readFrameSize :: "buffer \<Rightarrow> byte option \<Rightarrow> error + nat" where
  "readFrameSize b major =
     (if (case major of None \<Rightarrow> False | Some v \<Rightarrow> v \<ge> 4)
      then Inr (readSynchsafeInt b) else readUInt32BE b)"

definition writeFrameSize :: "id3_options \<Rightarrow> nat \<Rightarrow> error + buffer" where
  "writeFrameSize opts n =
     (if id3_version opts = ascii ''2.4'' then Inr (writeSynchsafeInt n) else writeUInt32BE n)"

text \<open>
  \<open>_parseID3Frames\<close>: the loop from \<open>offset\<close>, with \<open>tagEnd = id3Info.tagSize\<close>.
  \<open>offset < tagEnd - 4\<close> is on numbers; on \<open>nat\<close> the truncated subtraction gives
  the same test, since below 4 both are false.
\<close>

function parseFrames :: "buffer \<Rightarrow> byte option \<Rightarrow> nat \<Rightarrow> nat \<Rightarrow> error + frame list" where
  "parseFrames audioBuffer major tagEnd offset =
     (if offset < tagEnd - 4 then
        (let frameId = toString_utf8 (slice_buf audioBuffer offset (offset + 4)) in
         if frameId = [0, 0, 0, 0] then Inr []
         else
           (case readFrameSize (slice_buf audioBuffer (offset + 4) (offset + 8)) major of
              Inl e \<Rightarrow> Inl e
            | Inr frameSize \<Rightarrow>
                if frameSize = 0 \<or> offset + 10 + frameSize > tagEnd then Inr []
                else
                  (case parseFrames audioBuffer major tagEnd (offset + 10 + frameSize) of
                     Inl e \<Rightarrow> Inl e
                   | Inr frames \<Rightarrow>
                       Inr (\<lparr>frame_id = frameId, frame_size = frameSize,
                              frame_flags = Some (slice_buf audioBuffer (offset + 8) (offset + 10)),
                              frame_data = slice_buf audioBuffer (offset + 10) (offset + 10 + frameSize)\<rparr>
                            # frames))))
      else Inr [])"
  by pat_completeness auto
termination
  by (relation "measure (\<lambda>(b, m, tagEnd, offset). tagEnd - offset)") auto

declare parseFrames.simps [simp del]

definition parseID3Frames :: "buffer \<Rightarrow> id3info \<Rightarrow> error + frame list" where
  "parseID3Frames audioBuffer id3Info =
     parseFrames audioBuffer (majorVersion id3Info) (tagSize id3Info) 10"

text \<open>
  \<open>_parseTextFrame\<close> and \<open>_parsePrivateFrame\<close>: the index of the first zero byte
  splits the data. The results are pairs (description, value) and (identifier, data); the
  \<open>encoding\<close> byte that \<open>_parseTextFrame\<close> also returns is never read.
\<close>

fun nullIndex :: "buffer \<Rightarrow> nat option" where
  "nullIndex [] = None"
| "nullIndex (b # bs) = (if b = 0 then Some 0 else map_option Suc (nullIndex bs))"

definition parseTextFrame :: "buffer \<Rightarrow> jsstring \<times> jsstring" where
  "parseTextFrame data =
     (let textData = slice_from data 1 in
      case nullIndex textData of
        None \<Rightarrow> ([], toString_utf8 textData)
      | Some i \<Rightarrow> (toString_utf8 (slice_buf textData 0 i), toString_utf8 (slice_from textData (i + 1))))"

definition parsePrivateFrame :: "buffer \<Rightarrow> jsstring \<times> buffer" where
  "parsePrivateFrame data =
     (case nullIndex data of
        None \<Rightarrow> ([], data)
      | Some i \<Rightarrow> (toString_utf8 (slice_buf data 0 i), slice_from data (i + 1)))"

definition isAIMetadataFrame :: "frame \<Rightarrow> bool" where
  "isAIMetadataFrame fr =
     (if frame_id fr = AI_METADATA_FRAME then
        (let description = fst (parseTextFrame (frame_data fr)) in
         description = ascii ''AI_METADATA'' \<or> description = ascii ''AI_CHECKSUM'')
      else if frame_id fr = AI_SIGNATURE_FRAME then
        fst (parsePrivateFrame (frame_data fr)) = ascii ''AI_SIGNATURE''
      else False)"

definition createTextFrame :: "jsstring \<Rightarrow> jsstring \<Rightarrow> jsstring \<Rightarrow> frame" where
  "createTextFrame frameId description val =
     (let data = [0x03] @ description @ [0] @ val in
      \<lparr>frame_id = frameId, frame_size = length data, frame_flags = None, frame_data = data\<rparr>)"

definition createPrivateFrame :: "jsstring \<Rightarrow> jsstring \<Rightarrow> buffer \<Rightarrow> frame" where
  "createPrivateFrame frameId identifier privateData =
     (let data = identifier @ [0] @ privateData in
      \<lparr>frame_id = frameId, frame_size = length data, frame_flags = None, frame_data = data\<rparr>)"

definition buildFrame :: "id3_options \<Rightarrow> frame \<Rightarrow> error + buffer" where
  "buildFrame opts fr =
     (let idBytes = write_utf8 (frame_id fr) 4 in
      case writeFrameSize opts (length (frame_data fr)) of
        Inl e \<Rightarrow> Inl e
      | Inr sizeBytes \<Rightarrow>
          Inr (idBytes @ alloc (4 - length idBytes) @ sizeBytes @ [0, 0] @ frame_data fr))"

text \<open>The bytes of a frame when the \<open>version\<close> option is \<open>2.4\<close>.\<close>

definition frameBytes :: "frame \<Rightarrow> buffer" where
  "frameBytes fr =
     (let idBytes = write_utf8 (frame_id fr) 4 in
      idBytes @ alloc (4 - length idBytes) @ writeSynchsafeInt (length (frame_data fr)) @
      [0, 0] @ frame_data fr)"

fun buildFrames :: "id3_options \<Rightarrow> frame list \<Rightarrow> error + buffer list" where
  "buildFrames opts [] = Inr []"
| "buildFrames opts (fr # frs) =
     (case buildFrame opts fr of
        Inl e \<Rightarrow> Inl e
      | Inr d \<Rightarrow> (case buildFrames opts frs of Inl e \<Rightarrow> Inl e | Inr ds \<Rightarrow> Inr (d # ds)))"

definition buildID3Tag :: "id3_options \<Rightarrow> frame list \<Rightarrow> error + buffer" where
  "buildID3Tag opts frames =
     (case buildFrames opts frames of
        Inl e \<Rightarrow> Inl e
      | Inr framesData \<Rightarrow>
          (let totalFramesSize = sum_list (map length framesData);
               padding = alloc 1024;
               totalSize = totalFramesSize + length padding;
               header = ascii ''ID3'' @ [4, 0, 0] @ writeSynchsafeInt totalSize
           in Inr (header @ concat framesData @ padding)))"

section \<open>Library functions\<close>

text \<open>
  The handlers call the runtime's \<open>JSON\<close>, \<open>crypto\<close> and UTF-16 coder. These are
  not code of the repository: the model takes them as a parameter \<open>L\<close>.
  \<^item> \<open>JSON_stringify\<close>, \<open>JSON_parse\<close> (\<open>None\<close> when \<open>JSON.parse\<close> throws);
  \<^item> \<open>sha256_hex s\<close> is \<open>crypto.createHash('sha256').update(s).digest('hex')\<close>;
  \<^item> \<open>sign_base64 s key\<close> is \<open>crypto.createSign('SHA256')\<close>, \<open>update(s)\<close>,
    \<open>sign(key, 'base64')\<close>, which throws on a bad key;
  \<^item> \<open>utf16le_encode s\<close> is \<open>Buffer.from(s, 'utf16le')\<close> and \<open>utf16le_decode b\<close>
    is \<open>b.toString('utf16le')\<close>.
\<close>

record lib =
  JSON_stringify :: "jsval \<Rightarrow> jsstring"
  JSON_parse :: "jsstring \<Rightarrow> jsval option"
  sha256_hex :: "jsstring \<Rightarrow> jsstring"
  sign_base64 :: "jsstring \<Rightarrow> jsstring \<Rightarrow> error + jsstring"
  utf16le_encode :: "jsstring \<Rightarrow> buffer"
  utf16le_decode :: "buffer \<Rightarrow> jsstring"

section \<open>Validation, checksum and signature (both handlers)\<close>

definition validateMetadata :: "jsval \<Rightarrow> error + unit" where
  "validateMetadata metadata =
     (if \<not> truthy metadata \<or> \<not> typeof_object metadata
      then Inl (Error ''Metadata must be a valid object'')
      else if \<not> truthy_opt (get_prop metadata (ascii ''contentType''))
      then Inl (Error ''Missing required field: contentType'')
      else if \<not> truthy_opt (get_prop metadata (ascii ''origin''))
      then Inl (Error ''Missing required field: origin'')
      else if \<not> truthy_opt (get_prop metadata (ascii ''created''))
      then Inl (Error ''Missing required field: created'')
      else Inr ())"

definition createSignature :: "lib \<Rightarrow> jsval \<Rightarrow> jsstring \<Rightarrow> error + jsstring" where
  "createSignature L metadata key = sign_base64 L (JSON_stringify L metadata) key"

definition verifySignature :: "jsval \<Rightarrow> bool" where
  "verifySignature metadata = True"

text \<open>
  \<open>_verifyChecksum(metadata, buffer)\<close>: the buffer is a parameter of the function and
  is not read.
\<close>

definition verifyChecksum :: "lib \<Rightarrow> jsval \<Rightarrow> buffer \<Rightarrow> bool" where
  "verifyChecksum L metadata buf =
     (let metadataCopy =
            AList.delete (ascii ''_signatureValid'')
              (AList.delete (ascii ''_verified'')
                (AList.delete (ascii ''checksum'') (spread metadata)));
          calculatedChecksum = sha256_hex L (JSON_stringify L (JObj metadataCopy))
      in get_prop metadata (ascii ''checksum'') = Some (JStr calculatedChecksum))"

text \<open>
  The tail of \<open>extractMetadata\<close> in both handlers: the two derived flags are set on the
  record when it has a truthy \<open>checksum\<close>, a truthy \<open>signature\<close>.
\<close>

definition addVerification :: "lib \<Rightarrow> jsval \<Rightarrow> buffer \<Rightarrow> error + jsval" where
  "addVerification L metadata buf =
     (case (if truthy_opt (get_prop metadata (ascii ''checksum''))
            then set_prop metadata (ascii ''_verified'') (JBool (verifyChecksum L metadata buf))
            else Inr metadata) of
        Inl e \<Rightarrow> Inl e
      | Inr m \<Rightarrow>
          if truthy_opt (get_prop m (ascii ''signature''))
          then set_prop m (ascii ''_signatureValid'') (JBool (verifySignature m))
          else Inr m)"

section \<open>The ID3v2 handler: embedding, extraction, removal\<close>

definition createID3Tag ::
  "lib \<Rightarrow> id3_options \<Rightarrow> jsval \<Rightarrow> frame list \<Rightarrow> embed_options \<Rightarrow> error + buffer" where
  "createID3Tag L opts metadata existing options =
     (let frames0 = (if id3_preserveExisting opts
                     then filter (\<lambda>fr. \<not> isAIMetadataFrame fr) existing else []);
          metadataFrame =
            createTextFrame AI_METADATA_FRAME (ascii ''AI_METADATA'') (JSON_stringify L metadata);
          frames1 = frames0 @ [metadataFrame];
          frames2 = (if includeChecksum options
                     then frames1 @
                       [createTextFrame AI_CHECKSUM_FRAME (ascii ''AI_CHECKSUM'')
                          (sha256_hex L (JSON_stringify L metadata))]
                     else frames1)
      in case privateKey options of
           None \<Rightarrow> buildID3Tag opts frames2
         | Some key \<Rightarrow>
             if key = [] then buildID3Tag opts frames2
             else (case createSignature L metadata key of
                     Inl e \<Rightarrow> Inl e
                   | Inr signature \<Rightarrow>
                       buildID3Tag opts
                         (frames2 @
                            [createPrivateFrame AI_SIGNATURE_FRAME (ascii ''AI_SIGNATURE'')
                               signature])))"

definition ID3_embedMetadata ::
  "lib \<Rightarrow> id3_options \<Rightarrow> buffer \<Rightarrow> jsval \<Rightarrow> embed_options \<Rightarrow> error + buffer" where
  "ID3_embedMetadata L opts audioBuffer metadata options =
     wrap ''Failed to embed ID3 metadata: ''
       (case validateMetadata metadata of
          Inl e \<Rightarrow> Inl e
        | Inr _ \<Rightarrow>
            (let id3Info = parseID3Header audioBuffer in
             case createID3Tag L opts metadata (existingFrames id3Info) options of
               Inl e \<Rightarrow> Inl e
             | Inr newID3Tag \<Rightarrow> Inr (newID3Tag @ slice_from audioBuffer (tagSize id3Info))))"

text \<open>
  \<open>_extractAIFrames\<close>: the loop keeps the last metadata, checksum and signature it
  meets. \<open>metadata\<close> starts as \<open>null\<close>, which is \<open>JNull\<close>; a text that
  \<open>JSON.parse\<close> rejects is skipped. The handlers return \<open>JNull\<close> for \<open>null\<close>.
\<close>

definition extractStep ::
  "lib \<Rightarrow> jsval \<times> jsstring option \<times> buffer option \<Rightarrow> frame
     \<Rightarrow> jsval \<times> jsstring option \<times> buffer option" where
  "extractStep L st fr =
     (case st of (metadata, checksum, signature) \<Rightarrow>
        if frame_id fr = AI_METADATA_FRAME then
          (let textData = parseTextFrame (frame_data fr) in
           if fst textData = ascii ''AI_METADATA'' then
             (case JSON_parse L (snd textData) of
                None \<Rightarrow> (metadata, checksum, signature)
              | Some v \<Rightarrow> (v, checksum, signature))
           else if fst textData = ascii ''AI_CHECKSUM'' then
             (metadata, Some (snd textData), signature)
           else (metadata, checksum, signature))
        else if frame_id fr = AI_SIGNATURE_FRAME then
          (let privateData = parsePrivateFrame (frame_data fr) in
           if fst privateData = ascii ''AI_SIGNATURE''
           then (metadata, checksum, Some (snd privateData))
           else (metadata, checksum, signature))
        else (metadata, checksum, signature))"

definition extractAIFrames :: "lib \<Rightarrow> frame list \<Rightarrow> error + jsval" where
  "extractAIFrames L frames =
     (case foldl (extractStep L) (JNull, None, None) frames of
        (metadata, checksum, signature) \<Rightarrow>
          if truthy metadata then
            (case (case checksum of
                     None \<Rightarrow> Inr metadata
                   | Some c \<Rightarrow>
                       if c \<noteq> [] then set_prop metadata (ascii ''checksum'') (JStr c)
                       else Inr metadata) of
               Inl e \<Rightarrow> Inl e
             | Inr m \<Rightarrow>
                 (case signature of
                    None \<Rightarrow> Inr m
                  | Some sg \<Rightarrow> set_prop m (ascii ''signature'') (JBuf sg [])))
          else Inr JNull)"

definition ID3_extractMetadata :: "lib \<Rightarrow> buffer \<Rightarrow> error + jsval" where
  "ID3_extractMetadata L audioBuffer =
     wrap ''Failed to extract ID3 metadata: ''
       (let id3Info = parseID3Header audioBuffer in
        if \<not> hasID3 id3Info then Inr JNull
        else
          (case parseID3Frames audioBuffer id3Info of
             Inl e \<Rightarrow> Inl e
           | Inr frames \<Rightarrow>
               (case extractAIFrames L frames of
                  Inl e \<Rightarrow> Inl e
                | Inr aiMetadata \<Rightarrow>
                    if \<not> truthy aiMetadata then Inr JNull
                    else addVerification L aiMetadata audioBuffer)))"

text \<open>\<open>hasMetadata\<close>: \<open>_parseID3Header\<close> throws nothing, so the catch is never taken.\<close>

definition ID3_hasMetadata :: "buffer \<Rightarrow> bool" where
  "ID3_hasMetadata audioBuffer = hasID3 (parseID3Header audioBuffer)"

definition ID3_removeMetadata :: "id3_options \<Rightarrow> buffer \<Rightarrow> error + buffer" where
  "ID3_removeMetadata opts audioBuffer =
     wrap ''Failed to remove ID3 metadata: ''
       (let id3Info = parseID3Header audioBuffer in
        if \<not> hasID3 id3Info then Inr audioBuffer
        else
          (case parseID3Frames audioBuffer id3Info of
             Inl e \<Rightarrow> Inl e
           | Inr frames \<Rightarrow>
               (let filteredFrames = filter (\<lambda>fr. \<not> isAIMetadataFrame fr) frames in
                if length filteredFrames = 0
                then Inr (slice_from audioBuffer (tagSize id3Info))
                else
                  (case buildID3Tag opts filteredFrames of
                     Inl e \<Rightarrow> Inl e
                   | Inr newID3Tag \<Rightarrow>
                       Inr (newID3Tag @ slice_from audioBuffer (tagSize id3Info))))))"

section \<open>The image handler (exif-image.js)\<close>

subsection \<open>String functions\<close>

definition startsWith :: "jsstring \<Rightarrow> jsstring \<Rightarrow> bool" where
  "startsWith s p = (take (length p) s = p)"

fun includes_str :: "jsstring \<Rightarrow> jsstring \<Rightarrow> bool" where
  "includes_str [] p = (p = [])"
| "includes_str (c # cs) p = (startsWith (c # cs) p \<or> includes_str cs p)"

text \<open>The index of the first occurrence of \<open>p\<close> in \<open>s\<close>.\<close>

fun indexOf :: "jsstring \<Rightarrow> jsstring \<Rightarrow> nat option" where
  "indexOf [] p = (if p = [] then Some 0 else None)"
| "indexOf (c # cs) p =
     (if startsWith (c # cs) p then Some 0 else map_option Suc (indexOf cs p))"

text \<open>
  \<open>s.replace(/p/g, r)\<close> for a pattern that is a literal, non-empty text: the
  occurrences are replaced from the left, and the scan goes on after each one.
\<close>

function replaceAll :: "jsstring \<Rightarrow> jsstring \<Rightarrow> jsstring \<Rightarrow> jsstring" where
  "replaceAll p r [] = []"
| "replaceAll p r (c # cs) =
     (if p \<noteq> [] \<and> startsWith (c # cs) p
      then r @ replaceAll p r (drop (length p) (c # cs))
      else c # replaceAll p r cs)"
  by pat_completeness auto
termination
  by (relation "measure (\<lambda>(p, r, s). length s)") auto

text \<open>
  \<open>s.match(new RegExp('<open>(.*?)<close>', 's'))\<close> for literal tags: the group of the
  leftmost match. A match starts at the first opening tag that has a closing tag after
  it; when the first opening tag has none, no later one has. The lazy group ends at the
  first closing tag.
\<close>

definition matchBetween :: "jsstring \<Rightarrow> jsstring \<Rightarrow> jsstring \<Rightarrow> jsstring option" where
  "matchBetween opn cls s =
     (case indexOf s opn of
        None \<Rightarrow> None
      | Some i \<Rightarrow>
          (let rest = drop (i + length opn) s in
           case indexOf rest cls of None \<Rightarrow> None | Some j \<Rightarrow> Some (take j rest)))"

definition escapeXML :: "jsstring \<Rightarrow> jsstring" where
  "escapeXML text =
     replaceAll (ascii [CHR 0x27]) (ascii ''&apos;'')
       (replaceAll [0x22] (ascii ''&quot;'')
         (replaceAll (ascii ''>'') (ascii ''&gt;'')
           (replaceAll (ascii ''<'') (ascii ''&lt;'')
             (replaceAll (ascii ''&'') (ascii ''&amp;'') text))))"

definition unescapeXML :: "jsstring \<Rightarrow> jsstring" where
  "unescapeXML text =
     replaceAll (ascii ''&apos;'') (ascii [CHR 0x27])
       (replaceAll (ascii ''&quot;'') [0x22]
         (replaceAll (ascii ''&gt;'') (ascii ''>'')
           (replaceAll (ascii ''&lt;'') (ascii ''<'')
             (replaceAll (ascii ''&amp;'') (ascii ''&'') text))))"

text \<open>
  \<open>this._escapeXML(v)\<close> on a property value: \<open>v.replace\<close> is a function only when
  \<open>v\<close> is a string, and the call throws otherwise.
\<close>

definition escapeXML_val :: "jsval option \<Rightarrow> error + jsstring" where
  "escapeXML_val v = (case v of Some (JStr s) \<Rightarrow> Inr (escapeXML s) | _ \<Rightarrow> Inl TypeError)"

subsection \<open>Options, markers and format detection\<close>

record exif_options =
  preferredFormat :: jsstring
  exif_preserveExisting :: bool

definition exif_defaults :: exif_options where
  "exif_defaults = \<lparr>preferredFormat = ascii ''xmp'', exif_preserveExisting = True\<rparr>"

definition AI_XMP_NAMESPACE :: jsstring where
  "AI_XMP_NAMESPACE = ascii ''http://aicontenttagging.org/schemas/1.0/''"
definition AI_XMP_PREFIX :: jsstring where "AI_XMP_PREFIX = ascii ''aicontag''"
definition JPEG_SOI :: nat where "JPEG_SOI = 0xFFD8"
definition JPEG_APP1 :: nat where "JPEG_APP1 = 0xFFE1"
definition JPEG_SOS :: nat where "JPEG_SOS = 0xFFDA"

definition readUInt16BE :: "buffer \<Rightarrow> nat \<Rightarrow> error + nat" where
  "readUInt16BE b offset =
     (if offset + 2 > length b then Inl RangeError
      else Inr (unat (b ! offset) * 256 + unat (b ! (offset + 1))))"

definition writeUInt16BE :: "nat \<Rightarrow> error + buffer" where
  "writeUInt16BE v = (if v > 0xFFFF then Inl RangeError else Inr [of_nat (v div 256), of_nat v])"

definition detectImageFormat :: "buffer \<Rightarrow> string" where
  "detectImageFormat imageBuffer =
     (if length imageBuffer < 4 then ''unknown''
      else if imageBuffer ! 0 = 0xFF \<and> imageBuffer ! 1 = 0xD8 \<and> imageBuffer ! 2 = 0xFF
      then ''jpeg''
      else if imageBuffer ! 0 = 0x89 \<and> imageBuffer ! 1 = 0x50 \<and>
              imageBuffer ! 2 = 0x4E \<and> imageBuffer ! 3 = 0x47
      then ''png''
      else if (imageBuffer ! 0 = 0x49 \<and> imageBuffer ! 1 = 0x49) \<or>
              (imageBuffer ! 0 = 0x4D \<and> imageBuffer ! 1 = 0x4D)
      then ''tiff''
      else ''unknown'')"

subsection \<open>JPEG segments\<close>

text \<open>
  The loop of \<open>_parseJPEGSegments\<close> from \<open>offset\<close>. A read of two bytes that do not
  both lie in the buffer throws.
\<close>

function parseSegments :: "buffer \<Rightarrow> nat \<Rightarrow> error + buffer list" where
  "parseSegments imageBuffer offset =
     (if offset < length imageBuffer then
        (if imageBuffer ! offset \<noteq> 0xFF then Inr []
         else
           (case readUInt16BE imageBuffer offset of
              Inl e \<Rightarrow> Inl e
            | Inr marker \<Rightarrow>
                if marker = JPEG_SOS then Inr [slice_from imageBuffer offset]
                else
                  (case readUInt16BE imageBuffer (offset + 2) of
                     Inl e \<Rightarrow> Inl e
                   | Inr len \<Rightarrow>
                       (let segmentEnd = offset + 2 + len in
                        if segmentEnd > length imageBuffer then Inr []
                        else
                          (case parseSegments imageBuffer segmentEnd of
                             Inl e \<Rightarrow> Inl e
                           | Inr segments \<Rightarrow>
                               Inr (slice_buf imageBuffer offset segmentEnd # segments))))))
      else Inr [])"
  by pat_completeness auto
termination
  by (relation "measure (\<lambda>(b, offset). length b - offset)") auto

declare parseSegments.simps [simp del]

definition parseJPEGSegments :: "buffer \<Rightarrow> error + buffer list" where
  "parseJPEGSegments imageBuffer =
     (case readUInt16BE imageBuffer 0 of
        Inl e \<Rightarrow> Inl e
      | Inr soi \<Rightarrow>
          if soi \<noteq> JPEG_SOI then Inl (Error ''Invalid JPEG file: missing SOI marker'')
          else
            (case parseSegments imageBuffer 2 of
               Inl e \<Rightarrow> Inl e
             | Inr segments \<Rightarrow> Inr (slice_buf imageBuffer 0 2 # segments)))"

definition xmpIdentifier :: jsstring where
  "xmpIdentifier = ascii ''http://ns.adobe.com/xap/1.0/'' @ [0]"

definition exifIdentifier :: jsstring where
  "exifIdentifier = ascii ''Exif'' @ [0, 0]"

definition createAPP1Segment :: "buffer \<Rightarrow> string \<Rightarrow> error + buffer" where
  "createAPP1Segment data ty =
     (let identifier = (if ty = ''XMP'' then xmpIdentifier else exifIdentifier);
          totalLength = 2 + 2 + length identifier + length data
      in case writeUInt16BE JPEG_APP1 of
           Inl e \<Rightarrow> Inl e
         | Inr marker \<Rightarrow>
             (case writeUInt16BE (totalLength - 2) of
                Inl e \<Rightarrow> Inl e
              | Inr len \<Rightarrow> Inr (marker @ len @ identifier @ data)))"

definition isAPP1Segment :: "buffer \<Rightarrow> bool" where
  "isAPP1Segment segment =
     (length segment \<ge> 2 \<and> readUInt16BE segment 0 = Inr JPEG_APP1)"

text \<open>
  \<open>_isMetadataSegment\<close> reads the sixteen bytes \<open>segment.slice_buf(4, 20)\<close> as the
  identifier.
\<close>

definition isMetadataSegment :: "buffer \<Rightarrow> bool" where
  "isMetadataSegment segment =
     (if \<not> isAPP1Segment segment then False
      else
        (let identifier = toString_ascii (slice_buf segment 4 20) in
         startsWith identifier (ascii ''Exif'') \<or>
         startsWith identifier (ascii ''http://ns.adobe.com/xap/1.0/'')))"

definition containsAIMetadata :: "buffer \<Rightarrow> bool" where
  \<open>containsAIMetadata segment =
     (if \<not> isMetadataSegment segment then False
      else
        (let segmentString = toString_utf8 segment in
         includes_str segmentString AI_XMP_NAMESPACE \<or>
         includes_str segmentString (ascii ''AI_METADATA'') \<or>
         includes_str segmentString ([0x22] @ ascii ''contentType'' @ [0x22])))\<close>

definition extractXMPFromSegment :: "buffer \<Rightarrow> buffer option" where
  "extractXMPFromSegment segment =
     (if toString_ascii (slice_buf segment 4 (4 + length xmpIdentifier)) = xmpIdentifier
      then Some (slice_from segment (4 + length xmpIdentifier)) else None)"

definition extractEXIFFromSegment :: "buffer \<Rightarrow> buffer option" where
  "extractEXIFFromSegment segment =
     (if toString_ascii (slice_buf segment 4 (4 + length exifIdentifier)) = exifIdentifier
      then Some (slice_from segment (4 + length exifIdentifier)) else None)"

subsection \<open>XMP and EXIF payloads\<close>

text \<open>
  An element of the XMP template, \<open><aicontag:name>text</aicontag:name>\<close>, and the
  optional elements: \<open>v ? element : ''\<close>.
\<close>

definition element :: "string \<Rightarrow> jsstring \<Rightarrow> jsstring" where
  "element name text =
     ascii ''<'' @ AI_XMP_PREFIX @ ascii '':'' @ ascii name @ ascii ''>'' @ text @
     ascii ''</'' @ AI_XMP_PREFIX @ ascii '':'' @ ascii name @ ascii ''>''"

definition optionalElement :: "string \<Rightarrow> jsval option \<Rightarrow> error + jsstring" where
  "optionalElement name v =
     (if truthy_opt v
      then (case escapeXML_val v of Inl e \<Rightarrow> Inl e | Inr t \<Rightarrow> Inr (element name t))
      else Inr [])"

definition xmpHead :: jsstring where
  \<open>xmpHead =
     ascii ''<?xml version="1.0" encoding="UTF-8"?>'' @ [0x0A] @
     ascii ''<x:xmpmeta xmlns:x="adobe:ns:meta/" x:xmptk="AI Content Tagging Tools 1.0">'' @ [0x0A] @
     ascii ''  <rdf:RDF xmlns:rdf="http://www.w3.org/1999/02/22-rdf-syntax-ns#">'' @ [0x0A] @
     ascii ''    <rdf:Description rdf:about="" xmlns:'' @ AI_XMP_PREFIX @ ascii ''="'' @
     AI_XMP_NAMESPACE @ ascii ''">'' @ [0x0A]\<close>

definition xmpTail :: jsstring where
  "xmpTail =
     ascii ''    </rdf:Description>'' @ [0x0A] @
     ascii ''  </rdf:RDF>'' @ [0x0A] @
     ascii ''</x:xmpmeta>''"

definition indent :: jsstring where
  "indent = ascii ''      ''"

text \<open>
  \<open>_createXMPData\<close>: the template literal, its parts evaluated from left to right.
\<close>

definition createXMPData :: "lib \<Rightarrow> jsval \<Rightarrow> embed_options \<Rightarrow> error + buffer" where
  "createXMPData L metadata options =
     (case escapeXML_val (get_prop metadata (ascii ''contentType'')) of Inl e \<Rightarrow> Inl e
      | Inr contentType \<Rightarrow>
     (case escapeXML_val (get_prop metadata (ascii ''origin'')) of Inl e \<Rightarrow> Inl e
      | Inr origin \<Rightarrow>
     (case escapeXML_val (get_prop metadata (ascii ''created'')) of Inl e \<Rightarrow> Inl e
      | Inr created \<Rightarrow>
     (case optionalElement ''author'' (get_prop metadata (ascii ''author'')) of Inl e \<Rightarrow> Inl e
      | Inr author \<Rightarrow>
     (case optionalElement ''description'' (get_prop metadata (ascii ''description'')) of
        Inl e \<Rightarrow> Inl e
      | Inr description \<Rightarrow>
     (case optionalElement ''license'' (get_prop metadata (ascii ''license'')) of Inl e \<Rightarrow> Inl e
      | Inr license \<Rightarrow>
          Inr (xmpHead @
               indent @ element ''contentType'' contentType @ [0x0A] @
               indent @ element ''origin'' origin @ [0x0A] @
               indent @ element ''created'' created @ [0x0A] @
               indent @ author @ [0x0A] @
               indent @ description @ [0x0A] @
               indent @ license @ [0x0A] @
               indent @ element ''metadata'' (escapeXML (JSON_stringify L metadata)) @ [0x0A] @
               indent @
               (if includeChecksum options
                then element ''checksum'' (sha256_hex L (JSON_stringify L metadata))
                else []) @ [0x0A] @
               xmpTail)))))))"

definition createEXIFData :: "lib \<Rightarrow> jsval \<Rightarrow> buffer" where
  "createEXIFData L metadata =
     (ascii ''UNICODE'' @ [0]) @ utf16le_encode L (JSON_stringify L metadata)"

text \<open>
  \<open>_parseXMPData\<close> and \<open>_parseEXIFData\<close> return the parsed value, or \<open>null\<close>
  when there is no match or \<open>JSON.parse\<close> throws.
\<close>

definition parseXMPData :: "lib \<Rightarrow> buffer \<Rightarrow> jsval" where
  "parseXMPData L xmpData =
     (let xmpString = toString_utf8 xmpData in
      case matchBetween (ascii ''<'' @ AI_XMP_PREFIX @ ascii '':metadata>'')
             (ascii ''</'' @ AI_XMP_PREFIX @ ascii '':metadata>'') xmpString of
        None \<Rightarrow> JNull
      | Some m \<Rightarrow>
          (case JSON_parse L (unescapeXML m) of None \<Rightarrow> JNull | Some v \<Rightarrow> v))"

definition parseEXIFData :: "lib \<Rightarrow> buffer \<Rightarrow> jsval" where
  "parseEXIFData L exifData =
     (if toString_ascii (slice_buf exifData 0 8) = ascii ''UNICODE'' @ [0]
      then (case JSON_parse L (utf16le_decode L (slice_from exifData 8)) of
              None \<Rightarrow> JNull | Some v \<Rightarrow> v)
      else JNull)"

subsection \<open>Embedding, extraction and removal in a JPEG file\<close>

text \<open>
  \<open>_embedJPEGMetadata\<close>: \<open>segments[0]\<close> is the SOI segment; were the list empty,
  \<open>Buffer.concat\<close> would throw on the missing element.
\<close>

definition embedJPEGMetadata ::
  "lib \<Rightarrow> exif_options \<Rightarrow> buffer \<Rightarrow> jsval \<Rightarrow> embed_options \<Rightarrow> error + buffer" where
  "embedJPEGMetadata L opts imageBuffer metadata options =
     (case parseJPEGSegments imageBuffer of Inl e \<Rightarrow> Inl e
      | Inr segments \<Rightarrow>
     (case createXMPData L metadata options of Inl e \<Rightarrow> Inl e
      | Inr xmpData \<Rightarrow>
     (case createAPP1Segment xmpData ''XMP'' of Inl e \<Rightarrow> Inl e
      | Inr xmpSegment \<Rightarrow>
     (case (if preferredFormat opts = ascii ''exif'' \<or> preferredFormat opts = ascii ''both''
            then map_sum id (\<lambda>seg. [seg]) (createAPP1Segment (createEXIFData L metadata) ''EXIF'')
            else Inr []) of Inl e \<Rightarrow> Inl e
      | Inr exifSegment \<Rightarrow>
          (case segments of
             [] \<Rightarrow> Inl TypeError
           | soi # others \<Rightarrow>
               Inr (concat
                      ([soi] @ exifSegment @ [xmpSegment] @
                       filter (\<lambda>segment.
                                 \<not> (\<not> exif_preserveExisting opts \<and> isMetadataSegment segment))
                         others)))))))"

text \<open>
  The body of the loop of \<open>_extractJPEGMetadata\<close> for one segment: the metadata found
  there, or \<open>null\<close>.
\<close>

definition extractFromSegment :: "lib \<Rightarrow> buffer \<Rightarrow> jsval" where
  "extractFromSegment L segment =
     (if isAPP1Segment segment then
        (let fromXMP = (case extractXMPFromSegment segment of
                          None \<Rightarrow> JNull | Some xmpData \<Rightarrow> parseXMPData L xmpData)
         in if truthy fromXMP then fromXMP
            else (case extractEXIFFromSegment segment of
                    None \<Rightarrow> JNull
                  | Some exifData \<Rightarrow>
                      (let fromEXIF = parseEXIFData L exifData in
                       if truthy fromEXIF then fromEXIF else JNull)))
      else JNull)"

fun firstMetadata :: "lib \<Rightarrow> buffer list \<Rightarrow> jsval" where
  "firstMetadata L [] = JNull"
| "firstMetadata L (segment # segments) =
     (let m = extractFromSegment L segment in
      if truthy m then m else firstMetadata L segments)"

definition extractJPEGMetadata :: "lib \<Rightarrow> buffer \<Rightarrow> error + jsval" where
  "extractJPEGMetadata L imageBuffer =
     (case parseJPEGSegments imageBuffer of
        Inl e \<Rightarrow> Inl e
      | Inr segments \<Rightarrow> Inr (firstMetadata L segments))"

definition removeJPEGMetadata :: "buffer \<Rightarrow> error + buffer" where
  "removeJPEGMetadata imageBuffer =
     (case parseJPEGSegments imageBuffer of
        Inl e \<Rightarrow> Inl e
      | Inr segments \<Rightarrow>
          Inr (concat
                 (filter (\<lambda>segment. \<not> (isMetadataSegment segment \<and> containsAIMetadata segment))
                    segments)))"

subsection \<open>The handler's methods\<close>

definition EXIF_embedMetadata ::
  "lib \<Rightarrow> exif_options \<Rightarrow> buffer \<Rightarrow> jsval \<Rightarrow> embed_options \<Rightarrow> error + buffer" where
  "EXIF_embedMetadata L opts imageBuffer metadata options =
     wrap ''Failed to embed image metadata: ''
       (case validateMetadata metadata of
          Inl e \<Rightarrow> Inl e
        | Inr _ \<Rightarrow>
            (let format = detectImageFormat imageBuffer in
             if format = ''jpeg'' then embedJPEGMetadata L opts imageBuffer metadata options
             else if format = ''tiff''
             then Inl (Error ''TIFF metadata embedding not yet implemented'')
             else if format = ''png''
             then Inl (Error ''PNG metadata embedding not yet implemented'')
             else Inl (Error (''Unsupported image format: '' @ format))))"

definition EXIF_extractMetadata :: "lib \<Rightarrow> buffer \<Rightarrow> error + jsval" where
  "EXIF_extractMetadata L imageBuffer =
     wrap ''Failed to extract image metadata: ''
       (let format = detectImageFormat imageBuffer in
        case (if format = ''jpeg'' then extractJPEGMetadata L imageBuffer
              else if format = ''tiff''
              then Inl (Error ''TIFF metadata extraction not yet implemented'')
              else if format = ''png''
              then Inl (Error ''PNG metadata extraction not yet implemented'')
              else Inr JNull) of
          Inl e \<Rightarrow> Inl e
        | Inr metadata \<Rightarrow>
            if truthy metadata then addVerification L metadata imageBuffer else Inr metadata)"

definition EXIF_hasMetadata :: "lib \<Rightarrow> buffer \<Rightarrow> bool" where
  "EXIF_hasMetadata L imageBuffer =
     (case EXIF_extractMetadata L imageBuffer of
        Inl e \<Rightarrow> False
      | Inr metadata \<Rightarrow> metadata \<noteq> JNull)"

definition EXIF_removeMetadata :: "buffer \<Rightarrow> error + buffer" where
  "EXIF_removeMetadata imageBuffer =
     wrap ''Failed to remove image metadata: ''
       (let format = detectImageFormat imageBuffer in
        if format = ''jpeg'' then removeJPEGMetadata imageBuffer
        else if format = ''tiff'' then Inr imageBuffer
        else if format = ''png'' then Inr imageBuffer
        else Inr imageBuffer)"

section \<open>An instance of the library functions\<close>

text \<open>
  The properties below hold for every \<open>L\<close> that meets their stated assumptions. To
  evaluate the model on examples, \<open>lib0\<close> is one instance: JSON text for the values of
  \<open>jsval\<close> and a reader for objects whose values are strings; a one-byte sum in two hex
  digits standing in for the hash (no property depends on which function it is); a
  signature that is a fixed text; UTF-16LE on ASCII text.
\<close>

fun json_escape :: "jsstring \<Rightarrow> jsstring" where
  "json_escape [] = []"
| "json_escape (c # cs) =
     (if c = 0x22 \<or> c = 0x5C then [0x5C, c] @ json_escape cs else c # json_escape cs)"

definition json_quote :: "jsstring \<Rightarrow> jsstring" where
  "json_quote s = [0x22] @ json_escape s @ [0x22]"

fun commas :: "jsstring list \<Rightarrow> jsstring" where
  "commas [] = []"
| "commas [x] = x"
| "commas (x # y # ys) = x @ [0x2C] @ commas (y # ys)"

definition json_int :: "int \<Rightarrow> jsstring" where
  "json_int n = (if n < 0 then [0x2D] @ dec (nat (- n)) else dec (nat n))"

fun json_text :: "jsval \<Rightarrow> jsstring" where
  "json_text JNull = ascii ''null''"
| "json_text (JBool b) = (if b then ascii ''true'' else ascii ''false'')"
| "json_text (JNum n) = json_int n"
| "json_text (JStr s) = json_quote s"
| "json_text (JObj ps) =
     ascii ''{'' @ commas (map (\<lambda>p. json_quote (fst p) @ ascii '':'' @ json_text (snd p)) ps) @
     ascii ''}''"
| "json_text (JArr xs ps) = ascii ''['' @ commas (map json_text xs) @ ascii '']''"
| "json_text (JBuf bs ps) =
     ascii ''{'' @ json_quote (ascii ''type'') @ ascii '':'' @ json_quote (ascii ''Buffer'') @
     ascii '','' @ json_quote (ascii ''data'') @ ascii '':['' @
     commas (map (\<lambda>b. dec (unat b)) bs) @ ascii '']}''"

text \<open>
  The reader: a quoted string with its two escapes, then the members of an object of
  strings. The number bounds the steps; the length of the text is enough.
\<close>

fun read_chars :: "jsstring \<Rightarrow> (jsstring \<times> jsstring) option" where
  "read_chars [] = None"
| "read_chars (c # cs) =
     (if c = 0x22 then Some ([], cs)
      else if c = 0x5C then
        (case cs of
           [] \<Rightarrow> None
         | d # ds \<Rightarrow> map_option (\<lambda>(s, r). (d # s, r)) (read_chars ds))
      else map_option (\<lambda>(s, r). (c # s, r)) (read_chars cs))"

definition read_string :: "jsstring \<Rightarrow> (jsstring \<times> jsstring) option" where
  "read_string t = (case t of [] \<Rightarrow> None | c # cs \<Rightarrow> if c = 0x22 then read_chars cs else None)"

fun read_members :: "nat \<Rightarrow> jsstring \<Rightarrow> (jsstring \<times> jsval) list option" where
  "read_members 0 t = None"
| "read_members (Suc n) t =
     (case read_string t of
        None \<Rightarrow> None
      | Some (k, r) \<Rightarrow>
          (case r of
             [] \<Rightarrow> None
           | c # r1 \<Rightarrow>
               if c \<noteq> 0x3A then None
               else
                 (case read_string r1 of
                    None \<Rightarrow> None
                  | Some (v, r2) \<Rightarrow>
                      if r2 = ascii ''}'' then Some [(k, JStr v)]
                      else
                        (case r2 of
                           [] \<Rightarrow> None
                         | d # r3 \<Rightarrow>
                             if d \<noteq> 0x2C then None
                             else map_option (\<lambda>ms. (k, JStr v) # ms) (read_members n r3)))))"

definition json_read :: "jsstring \<Rightarrow> jsval option" where
  "json_read t =
     (if t = ascii ''{}'' then Some (JObj [])
      else (case t of
              [] \<Rightarrow> None
            | c # cs \<Rightarrow> if c = 0x7B then map_option JObj (read_members (length t) cs) else None))"

definition hex_digit :: "nat \<Rightarrow> byte" where
  "hex_digit d = (if d < 10 then 0x30 + of_nat d else 0x57 + of_nat d)"

definition sum_hex :: "jsstring \<Rightarrow> jsstring" where
  "sum_hex s =
     (let n = sum_list (map unat s) mod 256 in [hex_digit (n div 16), hex_digit (n mod 16)])"

definition lib0 :: lib where
  "lib0 = \<lparr>JSON_stringify = json_text, JSON_parse = json_read, sha256_hex = sum_hex,
            sign_base64 = (\<lambda>s key. Inr (ascii ''c2lnbmVk'')),
            utf16le_encode = (\<lambda>s. concat (map (\<lambda>b. [b, 0]) s)),
            utf16le_decode = (\<lambda>b. map fst (filter (\<lambda>p. even (snd p)) (zip b [0 ..< length b])))\<rparr>"

text \<open>An example record with the three required fields.\<close>

definition record0 :: jsval where
  "record0 = JObj [(ascii ''contentType'', JStr (ascii ''audio'')),
                   (ascii ''origin'', JStr (ascii ''ai'')),
                   (ascii ''created'', JStr (ascii ''2024-01-01''))]"

text \<open>
  What the properties of extraction assume of the library functions on a record \<open>R\<close>:
  \<open>JSON.parse\<close> inverts \<open>JSON.stringify\<close> on it; the JSON text and the hash are
  well-formed strings (decoding their bytes gives them back); the hash is not empty and
  has at most 64 characters; the JSON text is shorter than \<open>2 ^ 27\<close> bytes.
\<close>

definition library_facts :: "lib \<Rightarrow> jsval \<Rightarrow> bool" where
  "library_facts L R \<longleftrightarrow>
     JSON_parse L (JSON_stringify L R) = Some R \<and>
     toString_utf8 (JSON_stringify L R) = JSON_stringify L R \<and>
     toString_utf8 (sha256_hex L (JSON_stringify L R)) = sha256_hex L (JSON_stringify L R) \<and>
     sha256_hex L (JSON_stringify L R) \<noteq> [] \<and>
     length (sha256_hex L (JSON_stringify L R)) \<le> 64 \<and>
     length (JSON_stringify L R) < 2 ^ 27"

text \<open>The property names that extraction may set.\<close>

definition derivedName :: "jsstring \<Rightarrow> bool" where
  "derivedName k \<longleftrightarrow>
     k = ascii ''checksum'' \<or> k = ascii ''_verified'' \<or> k = ascii ''_signatureValid''"

text \<open>
  The record that the ID3 handler extracts after embedding \<open>record0\<close> under \<open>lib0\<close>
  with a checksum.
\<close>

definition extracted0 :: jsval where
  "extracted0 = JObj [(ascii ''contentType'', JStr (ascii ''audio'')),
                      (ascii ''origin'', JStr (ascii ''ai'')),
                      (ascii ''created'', JStr (ascii ''2024-01-01'')),
                      (ascii ''checksum'', JStr (ascii ''53'')),
                      (ascii ''_verified'', JBool True)]"

text \<open>
  The frames that \<open>_createID3Tag\<close> builds for a record when no frame is preserved and
  no key is given.
\<close>

definition provenanceFrames :: "lib \<Rightarrow> jsval \<Rightarrow> embed_options \<Rightarrow> frame list" where
  "provenanceFrames L R options =
     createTextFrame AI_METADATA_FRAME (ascii ''AI_METADATA'') (JSON_stringify L R) #
     (if includeChecksum options
      then [createTextFrame AI_CHECKSUM_FRAME (ascii ''AI_CHECKSUM'')
              (sha256_hex L (JSON_stringify L R))]
      else [])"

text \<open>
  A frame that a tag built under version 2.4 carries without loss: an identifier of four
  ASCII characters, not all zero, and data that is not empty and shorter than
  \<open>2 ^ 28\<close> bytes. \<open>reparsed fr\<close> is the frame as the parser returns it from the
  built tag: the flags are cleared.
\<close>

definition plainFrame :: "frame \<Rightarrow> bool" where
  "plainFrame fr \<longleftrightarrow>
     is_ascii (frame_id fr) \<and> length (frame_id fr) = 4 \<and> frame_id fr \<noteq> [0, 0, 0, 0] \<and>
     0 < length (frame_data fr) \<and> length (frame_data fr) < 2 ^ 28"

definition reparsed :: "frame \<Rightarrow> frame" where
  "reparsed fr =
     \<lparr>frame_id = frame_id fr, frame_size = length (frame_data fr),
      frame_flags = Some [0, 0], frame_data = frame_data fr\<rparr>"

definition builtTag :: "frame list \<Rightarrow> buffer" where
  "builtTag frs =
     ascii ''ID3'' @ [4, 0, 0] @
     writeSynchsafeInt (sum_list (map length (map frameBytes frs)) + 1024) @
     concat (map frameBytes frs) @ alloc 1024"

text \<open>
  A well-formed marker segment of a JPEG file: \<open>FF\<close>, a marker byte other than
  \<open>DA\<close>, a two-byte big-endian length that counts itself, and the payload.
\<close>

definition markerSegment :: "buffer \<Rightarrow> bool" where
  "markerSegment s \<longleftrightarrow>
     4 \<le> length s \<and> s ! 0 = 0xFF \<and> s ! 1 \<noteq> 0xDA \<and>
     length s = 2 + (unat (s ! 2) * 256 + unat (s ! 3))"

definition endsWith :: "buffer \<Rightarrow> buffer \<Rightarrow> bool" where
  "endsWith s p = (length p \<le> length s \<and> drop (length s - length p) s = p)"

text \<open>
  A JFIF header segment of 18 bytes, and two JPEG files with three bytes of scan data:
  \<open>jpeg0\<close> is well formed; in \<open>jpeg1\<close> the header segment is followed by two
  bytes that its declared length of 16 does not cover.
\<close>

definition app0 :: buffer where
  "app0 = [0xFF, 0xE0, 0x00, 0x10] @ ascii ''JFIF'' @ [0, 1, 1, 0, 0, 1, 0, 1, 0, 0]"

definition jpeg0 :: buffer where
  "jpeg0 = [0xFF, 0xD8] @ app0 @ [0xFF, 0xDA, 1, 2, 3]"

definition jpeg1 :: buffer where
  "jpeg1 = [0xFF, 0xD8] @ app0 @ [0, 0] @ [0xFF, 0xDA, 1, 2, 3]"

text \<open>
  The XMP document that \<open>_createXMPData\<close> writes for \<open>record0\<close> under
  \<open>lib0\<close> with a checksum, and the APP1 segment that carries it.
\<close>

definition xmpData0 :: buffer where
  "xmpData0 =
     xmpHead @
     indent @ element ''contentType'' (ascii ''audio'') @ [0x0A] @
     indent @ element ''origin'' (ascii ''ai'') @ [0x0A] @
     indent @ element ''created'' (ascii ''2024-01-01'') @ [0x0A] @
     indent @ [0x0A] @ indent @ [0x0A] @ indent @ [0x0A] @
     indent @ element ''metadata'' (escapeXML (json_text record0)) @ [0x0A] @
     indent @ element ''checksum'' (sum_hex (json_text record0)) @ [0x0A] @
     xmpTail"

definition xmpSegment0 :: buffer where
  "xmpSegment0 =
     [0xFF, 0xE1, of_nat ((length xmpData0 + 31) div 256), of_nat (length xmpData0 + 31)] @
     xmpIdentifier @ xmpData0"

text \<open>
  An ID3v2.4 tag of 22 bytes that holds one third-party \<open>TXXX\<close> frame with the
  description \<open>CustomTag\<close> and the value \<open>x\<close>, followed by three bytes of audio.
\<close>

definition customFrame :: buffer where
  "customFrame = ascii ''TXXX'' @ [0, 0, 0, 12, 0, 0] @ [3] @ ascii ''CustomTag'' @ [0] @ ascii ''x''"

definition customTag :: buffer where
  "customTag = ascii ''ID3'' @ [4, 0, 0, 0, 0, 0, 22] @ customFrame @ [1, 2, 3]"

text \<open>The frame of \<open>customTag\<close> as the parser returns it, and a tag with no frame.\<close>

definition customFrameParsed :: frame where
  "customFrameParsed =
     \<lparr>frame_id = ascii ''TXXX'', frame_size = 12, frame_flags = Some [0, 0],
      frame_data = [3] @ ascii ''CustomTag'' @ [0] @ ascii ''x''\<rparr>"

definition emptyTag :: buffer where
  "emptyTag = ascii ''ID3'' @ [4, 0, 0, 0, 0, 0, 0]"

text \<open>
  A tag of 25 bytes whose only frame is a provenance frame (\<open>TXXX\<close>, description
  \<open>AI_METADATA\<close>, value \<open>{}\<close>), followed by three bytes of audio.
\<close>

definition provenanceTag :: buffer where
  "provenanceTag =
     ascii ''ID3'' @ [4, 0, 0, 0, 0, 0, 25] @
     ascii ''TXXX'' @ [0, 0, 0, 15, 0, 0] @ [3] @ ascii ''AI_METADATA'' @ [0] @ ascii ''{}'' @
     [1, 2, 3]"

text \<open>The tag that the ID3 handler builds for \<open>record0\<close> under \<open>lib0\<close>.\<close>

definition tag0 :: buffer where
  "tag0 = builtTag (provenanceFrames lib0 record0 embed_defaults)"

text \<open>
  A record that already carries a \<open>checksum\<close> of its own, and what the ID3 handler
  extracts after embedding it under \<open>lib0\<close>.
\<close>

definition record1 :: jsval where
  "record1 = JObj [(ascii ''contentType'', JStr (ascii ''audio'')),
                   (ascii ''origin'', JStr (ascii ''ai'')),
                   (ascii ''created'', JStr (ascii ''2024-01-01'')),
                   (ascii ''checksum'', JStr (ascii ''aa''))]"

definition extracted1 :: jsval where
  "extracted1 = JObj [(ascii ''contentType'', JStr (ascii ''audio'')),
                      (ascii ''origin'', JStr (ascii ''ai'')),
                      (ascii ''created'', JStr (ascii ''2024-01-01'')),
                      (ascii ''checksum'', JStr (ascii ''56'')),
                      (ascii ''_verified'', JBool False)]"

definition tag1 :: buffer where
  "tag1 = builtTag (provenanceFrames lib0 record1 embed_defaults)"

text \<open>
  Searching a text for a literal pattern. \<open>mismatch s p\<close>: the text \<open>s\<close> and the
  pattern differ at a position that both have, so that no continuation of \<open>s\<close> starts
  with \<open>p\<close>. \<open>matchFree p s\<close>: no occurrence of \<open>p\<close> starts inside \<open>s\<close>, whatever
  follows \<open>s\<close>.
\<close>

fun mismatch :: "jsstring \<Rightarrow> jsstring \<Rightarrow> bool" where
  "mismatch [] p = False"
| "mismatch (c # cs) [] = False"
| "mismatch (c # cs) (q # qs) = (c \<noteq> q \<or> mismatch cs qs)"

fun matchFree :: "jsstring \<Rightarrow> jsstring \<Rightarrow> bool" where
  "matchFree p [] = True"
| "matchFree p (c # cs) = (mismatch (c # cs) p \<and> matchFree p cs)"

text \<open>
  What \<open>_escapeXML\<close> puts for one byte of the text, and text that decodes to itself.
\<close>

definition xmlEntity :: "byte \<Rightarrow> jsstring" where
  "xmlEntity c =
     (if c = 0x26 then ascii ''&amp;''
      else if c = 0x3C then ascii ''&lt;''
      else if c = 0x3E then ascii ''&gt;''
      else if c = 0x22 then ascii ''&quot;''
      else if c = 0x27 then ascii ''&apos;''
      else [c])"

definition wellFormed :: "jsstring \<Rightarrow> bool" where
  "wellFormed s \<longleftrightarrow> toString_utf8 s = s"

text \<open>
  The tags between which \<open>_parseXMPData\<close> looks for the record, the properties that
  \<open>_createXMPData\<close> writes as elements of their own, and a record in which those of
  them that are strings are well-formed text. A piece of the XMP document before the
  record is plain when it is well-formed text in which no opening tag of the record
  starts.
\<close>

definition metadataOpen :: jsstring where
  "metadataOpen = ascii ''<'' @ AI_XMP_PREFIX @ ascii '':metadata>''"

definition metadataClose :: jsstring where
  "metadataClose = ascii ''</'' @ AI_XMP_PREFIX @ ascii '':metadata>''"

definition xmpFields :: "string list" where
  "xmpFields = [''contentType'', ''origin'', ''created'', ''author'', ''description'', ''license'']"

definition wellFormedFields :: "jsval \<Rightarrow> bool" where
  "wellFormedFields R =
     list_all (\<lambda>name. case get_prop R (ascii name) of Some (JStr s) \<Rightarrow> wellFormed s | _ \<Rightarrow> True)
       xmpFields"

definition plainPiece :: "jsstring \<Rightarrow> bool" where
  "plainPiece x \<longleftrightarrow> wellFormed x \<and> matchFree metadataOpen x"

text \<open>
  Ownership of a frame as the specification words it, on the bytes of the frame and
  without the frame parsers: a \<open>TXXX\<close> frame whose description, the bytes between the
  encoding byte and the first zero byte, is the token \<open>AI_METADATA\<close> or
  \<open>AI_CHECKSUM\<close>, or a \<open>PRIV\<close> frame whose identifier, the bytes before the first
  zero byte, is the token \<open>AI_SIGNATURE\<close>.
\<close>

definition provenanceOwned :: "frame \<Rightarrow> bool" where
  "provenanceOwned fr \<longleftrightarrow>
     (frame_id fr = ascii ''TXXX'' \<and>
      (startsWith (drop 1 (frame_data fr)) (ascii ''AI_METADATA'' @ [0]) \<or>
       startsWith (drop 1 (frame_data fr)) (ascii ''AI_CHECKSUM'' @ [0]))) \<or>
     (frame_id fr = ascii ''PRIV'' \<and> startsWith (frame_data fr) (ascii ''AI_SIGNATURE'' @ [0]))"

text \<open>
  Three frames as \<open>_createTextFrame\<close> and \<open>_createPrivateFrame\<close> make them: the
  record \<open>{}\<close>, a checksum \<open>ab\<close> and a signature of two bytes.
\<close>

definition metadataFrame0 :: frame where
  "metadataFrame0 = createTextFrame AI_METADATA_FRAME (ascii ''AI_METADATA'') (ascii ''{}'')"

definition checksumFrame0 :: frame where
  "checksumFrame0 = createTextFrame AI_CHECKSUM_FRAME (ascii ''AI_CHECKSUM'') (ascii ''ab'')"

definition signatureFrame0 :: frame where
  "signatureFrame0 = createPrivateFrame AI_SIGNATURE_FRAME (ascii ''AI_SIGNATURE'') [7, 9]"

text \<open>
  An ID3v2.3 tag that declares 20 bytes and is cut off inside its first frame header.
\<close>

definition truncatedTag :: buffer where
  "truncatedTag = ascii ''ID3'' @ [3, 0, 0, 0, 0, 0, 20] @ ascii ''TX''"


section \<open>Properties\<close>

subsection \<open>Words and synchsafe integers\<close>

lemma mask7: "(0x7F :: 32 word) = mask 7"
  by (simp add: mask_eq_exp_minus_1)

lemma bit_below_28: "(w :: 32 word) < 2 ^ 28 \<Longrightarrow> bit w n \<Longrightarrow> n < 28"
  by (metis bit_take_bit_iff less_mask_eq take_bit_eq_mask)

lemma synchsafe_word_roundtrip:
  assumes "w < 2 ^ 28"
  shows "push_bit 21 (ucast (ucast (drop_bit 21 w AND 0x7F :: 32 word) :: byte) :: 32 word) OR
         push_bit 14 (ucast (ucast (drop_bit 14 w AND 0x7F :: 32 word) :: byte)) OR
         push_bit 7 (ucast (ucast (drop_bit 7 w AND 0x7F :: 32 word) :: byte)) OR
         ucast (ucast (w AND 0x7F :: 32 word) :: byte) = w"
proof (rule bit_word_eqI)
  fix n :: nat
  assume n: "n < LENGTH(32)"
  have hi: "28 \<le> n \<Longrightarrow> \<not> bit w n"
    using assms bit_below_28 [of w n] by auto
  consider "n < 7" | "7 \<le> n" "n < 14" | "14 \<le> n" "n < 21" | "21 \<le> n" "n < 28" | "28 \<le> n"
    by linarith
  then show "bit (push_bit 21 (ucast (ucast (drop_bit 21 w AND 0x7F :: 32 word) :: byte) :: 32 word) OR
         push_bit 14 (ucast (ucast (drop_bit 14 w AND 0x7F :: 32 word) :: byte)) OR
         push_bit 7 (ucast (ucast (drop_bit 7 w AND 0x7F :: 32 word) :: byte)) OR
         ucast (ucast (w AND 0x7F :: 32 word) :: byte)) n = bit w n"
    unfolding mask7 using hi n by cases (auto simp add: bit_simps)
qed

lemma sint_positive32:
  assumes "\<not> bit (w :: 32 word) 31"
  shows "nat (sint w) = unat w"
proof -
  have "take_bit 31 w = w"
  proof (rule bit_word_eqI)
    fix n :: nat
    assume "n < LENGTH(32)"
    then show "bit (take_bit 31 w) n = bit w n"
      using assms by (cases "n = 31") (auto simp add: bit_simps)
  qed
  then have "uint w = take_bit 31 (uint w)"
    by (metis unsigned_take_bit_eq)
  moreover have "sint w = signed_take_bit 31 (uint w)"
    by (simp add: sint_uint)
  moreover have "\<not> bit (uint w) 31"
    using assms by (simp add: bit_uint_iff)
  ultimately have "sint w = uint w"
    by (simp add: signed_take_bit_eq_if_positive)
  then show ?thesis by simp
qed

lemma byte_at_high_bits: "8 \<le> n \<Longrightarrow> \<not> bit (byte_at b i) n"
  by (auto simp add: byte_at_def bit_simps dest: bit_imp_le_length)

text \<open>
  The result of the bitwise expression is a signed 32-bit integer; it is never negative,
  since no operand reaches bit 29.
\<close>

lemma readSynchsafeInt_unat: "readSynchsafeInt b = unat (readSynchsafeInt32 b)"
proof -
  have "\<not> bit (readSynchsafeInt32 b) 31"
    by (simp add: readSynchsafeInt32_def bit_simps byte_at_high_bits)
  then show ?thesis
    unfolding readSynchsafeInt_def by (rule sint_positive32)
qed

lemma readSynchsafeInt_write:
  assumes "v < 2 ^ 28"
  shows "readSynchsafeInt (writeSynchsafeInt v) = v"
proof -
  let ?w = "word_of_nat v :: 32 word"
  have w: "?w < 2 ^ 28"
    using assms by (simp add: word_less_nat_alt unat_of_nat)
  have "readSynchsafeInt32 (writeSynchsafeInt v) = ?w"
    using synchsafe_word_roundtrip [OF w]
    by (simp add: readSynchsafeInt32_def writeSynchsafeInt_def byte_at_def Let_def)
  then have "readSynchsafeInt (writeSynchsafeInt v) = unat ?w"
    by (simp add: readSynchsafeInt_unat)
  also have "\<dots> = v"
    using assms by (simp add: unat_of_nat take_bit_nat_eq_self)
  finally show ?thesis .
qed

lemma seven_bits: "(ucast (x AND (0x7F :: 32 word)) :: byte) < 0x80"
proof -
  have "(ucast (x AND (0x7F :: 32 word)) :: byte) = (ucast (x AND (0x7F :: 32 word)) :: byte) AND mask 7"
    unfolding mask7 by (rule bit_word_eqI) (auto simp add: bit_simps)
  also have "\<dots> < 2 ^ 7"
    by (rule and_mask_less') simp
  finally show ?thesis by simp
qed

lemma length_writeSynchsafeInt [simp]: "length (writeSynchsafeInt v) = 4"
  by (simp add: writeSynchsafeInt_def Let_def)

text \<open>
  C8. Encoding writes four bytes, each masked to seven bits, most significant group
  first; decoding inverts it on every value below \<open>2 ^ 28\<close>. The value
  \<open>0x0FFFFFFF\<close> encodes to \<open>7F 7F 7F 7F\<close>, and these bytes decode to it.
\<close>

theorem synchsafe_roundtrip:
  "(v < 2 ^ 28 \<longrightarrow> readSynchsafeInt (writeSynchsafeInt v) = v) \<and>
   length (writeSynchsafeInt v) = 4 \<and>
   list_all (\<lambda>b. b < 0x80) (writeSynchsafeInt v) \<and>
   writeSynchsafeInt 0x0FFFFFFF = [0x7F, 0x7F, 0x7F, 0x7F] \<and>
   readSynchsafeInt [0x7F, 0x7F, 0x7F, 0x7F] = 0x0FFFFFFF"
proof -
  have "list_all (\<lambda>b. b < 0x80) (writeSynchsafeInt v)"
    by (simp add: writeSynchsafeInt_def Let_def seven_bits)
  moreover have "writeSynchsafeInt 0x0FFFFFFF = [0x7F, 0x7F, 0x7F, 0x7F]"
    by (simp add: writeSynchsafeInt_def)
  moreover have "readSynchsafeInt [0x7F, 0x7F, 0x7F, 0x7F] = 0x0FFFFFFF"
    by (simp add: readSynchsafeInt_def readSynchsafeInt32_def byte_at_def)
  ultimately show ?thesis
    by (simp add: readSynchsafeInt_write)
qed

theorem synchsafe_roundtrip_witness:
  "(1039 :: nat) < 2 ^ 28 \<and> writeSynchsafeInt 1039 = [0, 0, 8, 15] \<and>
   readSynchsafeInt (writeSynchsafeInt 1039) = 1039"
proof -
  have "writeSynchsafeInt 1039 = [0, 0, 8, 15]"
    by (simp add: writeSynchsafeInt_def)
  then show ?thesis
    using synchsafe_roundtrip [of 1039] by simp
qed

subsection \<open>Decoding ASCII text\<close>

lemma toString_utf8_ascii: "is_ascii bs \<Longrightarrow> toString_utf8 bs = bs"
  by (induction bs) (auto simp: is_ascii_def)

lemma toString_utf8_head:
  "\<not> b < 0x80 \<Longrightarrow> \<exists>c cs. toString_utf8 (b # bs) = c # cs \<and> \<not> c < 0x80"
  by (auto simp: replacement_def Let_def split: option.splits)

lemma toString_utf8_eq_ascii: "is_ascii s \<Longrightarrow> toString_utf8 bs = s \<Longrightarrow> bs = s"
proof (induction bs arbitrary: s)
  case Nil
  then show ?case by simp
next
  case (Cons b bs)
  show ?case
  proof (cases "b < 0x80")
    case True
    with Cons show ?thesis by (auto simp: is_ascii_def)
  next
    case False
    from toString_utf8_head [OF False, of bs] Cons.prems show ?thesis
      by (auto simp: is_ascii_def)
  qed
qed

text \<open>A decoded text equals an ASCII literal exactly when the bytes are the literal's.\<close>

lemma toString_utf8_is: "is_ascii s \<Longrightarrow> (toString_utf8 bs = s) = (bs = s)"
  using toString_utf8_eq_ascii toString_utf8_ascii by blast

lemma is_ascii_ID3: "is_ascii (ascii ''ID3'')"
  by (simp add: is_ascii_def ascii_def)

subsection \<open>The ID3v2 header\<close>

lemma take4_drop:
  assumes "Suc (Suc (Suc (Suc a))) \<le> length b"
  shows "take (Suc (Suc (Suc (Suc 0)))) (drop a b) =
         [b ! a, b ! Suc a, b ! Suc (Suc a), b ! Suc (Suc (Suc a))]"
proof -
  have "drop a b = b ! a # drop (Suc a) b"
    using assms by (simp add: Cons_nth_drop_Suc)
  moreover have "drop (Suc a) b = b ! Suc a # drop (Suc (Suc a)) b"
    using assms by (simp add: Cons_nth_drop_Suc)
  moreover have "drop (Suc (Suc a)) b = b ! Suc (Suc a) # drop (Suc (Suc (Suc a))) b"
    using assms by (simp add: Cons_nth_drop_Suc)
  moreover have "drop (Suc (Suc (Suc a))) b =
      b ! Suc (Suc (Suc a)) # drop (Suc (Suc (Suc (Suc a)))) b"
    using assms by (simp add: Cons_nth_drop_Suc)
  ultimately show ?thesis
    by simp
qed

lemma slice4:
  assumes "a + 4 \<le> length b"
  shows "slice_buf b a (a + 4) = [b ! a, b ! (a + 1), b ! (a + 2), b ! (a + 3)]"
  using assms take4_drop [of a b] by (simp add: slice_buf_def numeral_eq_Suc)

lemma hasID3_iff:
  "hasID3 (parseID3Header buf) \<longleftrightarrow> 10 \<le> length buf \<and> take 3 buf = ascii ''ID3''"
  by (auto simp: parseID3Header_def no_id3_def Let_def slice_buf_def toString_utf8_is [OF is_ascii_ID3])

lemma tagSize_parseID3Header:
  "hasID3 (parseID3Header buf) \<Longrightarrow>
   tagSize (parseID3Header buf) = readSynchsafeInt (slice_buf buf 6 10) + 10"
  by (auto simp: parseID3Header_def no_id3_def Let_def split: if_splits)

lemma no_ID3_header:
  "\<not> hasID3 (parseID3Header buf) \<Longrightarrow> parseID3Header buf = no_id3"
  by (auto simp: parseID3Header_def Let_def split: if_splits)

text \<open>
  C7, as the code has it. \<open>_parseID3Header\<close> returns a header record for every input
  and has no failure: a buffer of ten bytes or more that starts with \<open>ID3\<close> is accepted
  whatever its four size bytes are, and the size is the bitwise OR of the four bytes
  shifted by 21, 14, 7 and 0 bits, plus ten.
\<close>

theorem parseID3Header_size_unchecked:
  "10 \<le> length buf \<and> take 3 buf = ascii ''ID3'' \<longrightarrow>
   hasID3 (parseID3Header buf) \<and>
   tagSize (parseID3Header buf) =
     unat (push_bit 21 (ucast (buf ! 6) :: 32 word) OR push_bit 14 (ucast (buf ! 7)) OR
           push_bit 7 (ucast (buf ! 8)) OR ucast (buf ! 9)) + 10"
proof
  assume a: "10 \<le> length buf \<and> take 3 buf = ascii ''ID3''"
  then have h: "hasID3 (parseID3Header buf)"
    by (simp add: hasID3_iff)
  have "slice_buf buf 6 10 = [buf ! 6, buf ! 7, buf ! 8, buf ! 9]"
    using a slice4 [of 6 buf] by simp
  then have "readSynchsafeInt32 (slice_buf buf 6 10) =
     push_bit 21 (ucast (buf ! 6) :: 32 word) OR push_bit 14 (ucast (buf ! 7)) OR
           push_bit 7 (ucast (buf ! 8)) OR ucast (buf ! 9)"
    by (simp add: readSynchsafeInt32_def byte_at_def)
  with h show "hasID3 (parseID3Header buf) \<and>
   tagSize (parseID3Header buf) =
     unat (push_bit 21 (ucast (buf ! 6) :: 32 word) OR push_bit 14 (ucast (buf ! 7)) OR
           push_bit 7 (ucast (buf ! 8)) OR ucast (buf ! 9)) + 10"
    by (simp add: tagSize_parseID3Header readSynchsafeInt_unat)
qed

text \<open>
  The claim as stated fails: the size bytes \<open>80 00 00 00\<close> have the top bit set in
  the first byte, and the header is accepted with a size of \<open>2 ^ 28\<close>.
\<close>

theorem parseID3Header_accepts_msb:
  "hasID3 (parseID3Header (ascii ''ID3'' @ [4, 0, 0, 0x80, 0, 0, 0])) \<and>
   tagSize (parseID3Header (ascii ''ID3'' @ [4, 0, 0, 0x80, 0, 0, 0])) = 2 ^ 28 + 10"
  by (simp add: parseID3Header_def ascii_def slice_buf_def Let_def readSynchsafeInt_def
      readSynchsafeInt32_def byte_at_def)

theorem parseID3Header_size_unchecked_witness:
  "10 \<le> length (ascii ''ID3'' @ [4, 0, 0, 0xFF, 0xFF, 0xFF, 0xFF]) \<and>
   hasID3 (parseID3Header (ascii ''ID3'' @ [4, 0, 0, 0xFF, 0xFF, 0xFF, 0xFF])) \<and>
   tagSize (parseID3Header (ascii ''ID3'' @ [4, 0, 0, 0xFF, 0xFF, 0xFF, 0xFF])) = 0x1FFFFFFF + 10"
  using parseID3Header_size_unchecked [of "ascii ''ID3'' @ [4, 0, 0, 0xFF, 0xFF, 0xFF, 0xFF]"]
  by (simp add: ascii_def)

subsection \<open>Presence of metadata\<close>

lemma customTag_bytes:
  "customTag = [0x49, 0x44, 0x33, 4, 0, 0, 0, 0, 0, 22,
                0x54, 0x58, 0x58, 0x58, 0, 0, 0, 12, 0, 0,
                3, 0x43, 0x75, 0x73, 0x74, 0x6F, 0x6D, 0x54, 0x61, 0x67, 0, 0x78,
                1, 2, 3]"
  by (simp add: customTag_def customFrame_def ascii_def)

lemma customTag_header:
  "parseID3Header customTag =
     \<lparr>hasID3 = True, tagSize = 32, version = Some (ascii ''2.4.0''), flags = Some 0,
      majorVersion = Some 4, minorVersion = Some 0, existingFrames = []\<rparr>"
  by (simp add: customTag_bytes parseID3Header_def slice_buf_def ascii_def Let_def
      readSynchsafeInt_def readSynchsafeInt32_def byte_at_def dec.simps)

lemma customTag_frames:
  "parseID3Frames customTag (parseID3Header customTag) =
     Inr [\<lparr>frame_id = ascii ''TXXX'', frame_size = 12, frame_flags = Some [0, 0],
           frame_data = [3] @ ascii ''CustomTag'' @ [0] @ ascii ''x''\<rparr>]"
  by (simp add: customTag_header parseID3Frames_def)
     (simp add: customTag_bytes parseFrames.simps slice_buf_def ascii_def readFrameSize_def
      readSynchsafeInt_def readSynchsafeInt32_def byte_at_def)

lemma customTag_extract: "ID3_extractMetadata L customTag = Inr JNull"
  by (simp add: ID3_extractMetadata_def customTag_frames Let_def wrap_def)
     (simp add: customTag_header extractAIFrames_def extractStep_def AI_METADATA_FRAME_def
      parseTextFrame_def slice_from_def slice_buf_def ascii_def)

text \<open>
  C10. The ID3 handler's \<open>hasMetadata\<close> is true exactly for a buffer of ten bytes or
  more that starts with \<open>ID3\<close>; it is a total function with a Boolean result and
  looks at no frame. The image handler's \<open>hasMetadata\<close> is true exactly when
  \<open>extractMetadata\<close> returns a record.
\<close>

theorem hasMetadata_contract:
  "(ID3_hasMetadata buf \<longleftrightarrow> 10 \<le> length buf \<and> take 3 buf = ascii ''ID3'') \<and>
   (EXIF_hasMetadata L img \<longleftrightarrow> (\<exists>m. EXIF_extractMetadata L img = Inr m \<and> m \<noteq> JNull))"
  by (auto simp: ID3_hasMetadata_def hasID3_iff EXIF_hasMetadata_def split: sum.splits)

text \<open>
  A tag with one third-party frame and no provenance record: the ID3 handler says it has
  metadata although extraction finds none. A JPEG file without a record: the image
  handler says it has none.
\<close>

theorem hasMetadata_contract_witness:
  "ID3_hasMetadata customTag \<and> ID3_extractMetadata lib0 customTag = Inr JNull \<and>
   \<not> ID3_hasMetadata (ascii ''ID3'') \<and>
   EXIF_extractMetadata lib0 [0xFF, 0xD8, 0xFF, 0xDA] = Inr JNull \<and>
   \<not> EXIF_hasMetadata lib0 [0xFF, 0xD8, 0xFF, 0xDA]"
proof -
  have e: "EXIF_extractMetadata lib0 [0xFF, 0xD8, 0xFF, 0xDA] = Inr JNull"
    by (simp add: EXIF_extractMetadata_def detectImageFormat_def extractJPEGMetadata_def
        parseJPEGSegments_def readUInt16BE_def JPEG_SOI_def JPEG_SOS_def parseSegments.simps
        slice_buf_def slice_from_def extractFromSegment_def isAPP1Segment_def JPEG_APP1_def
        wrap_def)
  have "take 3 customTag = ascii ''ID3''" "10 \<le> length customTag"
    by (simp_all add: customTag_bytes ascii_def)
  moreover have "take 3 (ascii ''ID3'') = ascii ''ID3''" "\<not> 10 \<le> length (ascii ''ID3'')"
    by (simp_all add: ascii_def)
  ultimately show ?thesis
    using hasMetadata_contract [of customTag lib0 "[0xFF, 0xD8, 0xFF, 0xDA]"]
      hasMetadata_contract [of "ascii ''ID3''" lib0 "[0xFF, 0xD8, 0xFF, 0xDA]"]
      customTag_extract [of lib0] e
    by simp
qed

subsection \<open>Formats without an implementation\<close>

lemma four_bytes: "4 \<le> length buf \<Longrightarrow> \<exists>a b c d r. buf = a # b # c # d # r"
  by (auto simp: numeral_eq_Suc Suc_le_length_iff)

lemma detect_png:
  "detectImageFormat buf = ''png'' \<longleftrightarrow>
   4 \<le> length buf \<and> take 4 buf = [0x89, 0x50, 0x4E, 0x47]"
proof (cases "4 \<le> length buf")
  case True
  then obtain a b c d r where "buf = a # b # c # d # r"
    using four_bytes by blast
  then show ?thesis
    by (auto simp: detectImageFormat_def)
next
  case False
  then show ?thesis by (simp add: detectImageFormat_def)
qed

lemma detect_tiff:
  "detectImageFormat buf = ''tiff'' \<longleftrightarrow>
   4 \<le> length buf \<and> (take 2 buf = [0x49, 0x49] \<or> take 2 buf = [0x4D, 0x4D])"
proof (cases "4 \<le> length buf")
  case True
  then obtain a b c d r where "buf = a # b # c # d # r"
    using four_bytes by blast
  then show ?thesis
    by (auto simp: detectImageFormat_def)
next
  case False
  then show ?thesis by (simp add: detectImageFormat_def)
qed

lemma detect_jpeg:
  "detectImageFormat buf = ''jpeg'' \<longleftrightarrow>
   4 \<le> length buf \<and> take 3 buf = [0xFF, 0xD8, 0xFF]"
proof (cases "4 \<le> length buf")
  case True
  then obtain a b c d r where "buf = a # b # c # d # r"
    using four_bytes by blast
  then show ?thesis
    by (auto simp: detectImageFormat_def)
next
  case False
  then show ?thesis by (simp add: detectImageFormat_def)
qed

text \<open>
  C4. For a buffer that the handler classifies as PNG (at least four bytes, starting
  \<open>89 50 4E 47\<close>) or TIFF (at least four bytes, starting \<open>49 49\<close> or \<open>4D 4D\<close>),
  \<open>embedMetadata\<close> always throws, with the "not yet implemented" error whenever the
  record passes validation, and \<open>extractMetadata\<close> throws the "not yet implemented"
  error. Neither returns the input or \<open>null\<close>.
\<close>

theorem unsupported_format_rejected:
  assumes "4 \<le> length buf"
    and "take 4 buf = [0x89, 0x50, 0x4E, 0x47] \<or> take 2 buf = [0x49, 0x49] \<or>
         take 2 buf = [0x4D, 0x4D]"
  shows "(\<exists>e. EXIF_embedMetadata L opts buf metadata options = Inl e) \<and>
     (validateMetadata metadata = Inr () \<longrightarrow>
        EXIF_embedMetadata L opts buf metadata options =
          Inl (Wrapped ''Failed to embed image metadata: ''
                (Error (if detectImageFormat buf = ''png''
                        then ''PNG metadata embedding not yet implemented''
                        else ''TIFF metadata embedding not yet implemented'')))) \<and>
     EXIF_extractMetadata L buf =
       Inl (Wrapped ''Failed to extract image metadata: ''
             (Error (if detectImageFormat buf = ''png''
                     then ''PNG metadata extraction not yet implemented''
                     else ''TIFF metadata extraction not yet implemented'')))"
proof -
  have "detectImageFormat buf = ''png'' \<or> detectImageFormat buf = ''tiff''"
    using assms by (auto simp: detect_png detect_tiff)
  then show ?thesis
    by (auto simp: EXIF_embedMetadata_def EXIF_extractMetadata_def wrap_def Let_def
        split: sum.splits)
qed

theorem unsupported_format_rejected_witness:
  "validateMetadata record0 = Inr () \<and>
   EXIF_embedMetadata lib0 exif_defaults [0x89, 0x50, 0x4E, 0x47, 0x0D, 0x0A] record0 embed_defaults =
     Inl (Wrapped ''Failed to embed image metadata: ''
           (Error ''PNG metadata embedding not yet implemented'')) \<and>
   EXIF_extractMetadata lib0 [0x49, 0x49, 0x2A, 0x00] =
     Inl (Wrapped ''Failed to extract image metadata: ''
           (Error ''TIFF metadata extraction not yet implemented''))"
proof -
  have v: "validateMetadata record0 = Inr ()"
    by (simp add: validateMetadata_def record0_def truthy_opt_def ascii_def)
  have "detectImageFormat [0x89, 0x50, 0x4E, 0x47, 0x0D, 0x0A] = ''png''"
    "detectImageFormat [0x49, 0x49, 0x2A, 0x00] = ''tiff''"
    by (simp_all add: detectImageFormat_def)
  then show ?thesis
    using v
      unsupported_format_rejected [of "[0x89, 0x50, 0x4E, 0x47, 0x0D, 0x0A]" lib0 exif_defaults
        record0 embed_defaults]
      unsupported_format_rejected [of "[0x49, 0x49, 0x2A, 0x00]" lib0 exif_defaults
        record0 embed_defaults]
    by simp
qed

subsection \<open>Removal from an ID3v2 tag\<close>

lemma filter_empty_iff_all: "filter (\<lambda>x. \<not> P x) xs = [] \<longleftrightarrow> list_all P xs"
  by (induction xs) auto

lemma createID3Tag_unsigned:
  "privateKey options = None \<Longrightarrow>
   createID3Tag L opts metadata existing options =
     buildID3Tag opts
       ((if id3_preserveExisting opts then filter (\<lambda>fr. \<not> isAIMetadataFrame fr) existing else []) @
        [createTextFrame AI_METADATA_FRAME (ascii ''AI_METADATA'') (JSON_stringify L metadata)] @
        (if includeChecksum options
         then [createTextFrame AI_CHECKSUM_FRAME (ascii ''AI_CHECKSUM'')
                 (sha256_hex L (JSON_stringify L metadata))]
         else []))"
  by (simp add: createID3Tag_def Let_def)

text \<open>
  The cases of \<open>removeMetadata\<close>, relative to the frames that the parser returns and
  to the test \<open>_isAIMetadataFrame\<close>.
\<close>

lemma ID3_removeMetadata_cases:
  "(\<not> hasID3 (parseID3Header buf) \<longrightarrow> ID3_removeMetadata opts buf = Inr buf) \<and>
   (hasID3 (parseID3Header buf) \<and> parseID3Frames buf (parseID3Header buf) = Inr frames \<longrightarrow>
      (list_all isAIMetadataFrame frames \<longrightarrow>
         ID3_removeMetadata opts buf = Inr (drop (tagSize (parseID3Header buf)) buf)) \<and>
      (\<not> list_all isAIMetadataFrame frames \<longrightarrow>
         filter (\<lambda>fr. \<not> isAIMetadataFrame fr) frames \<noteq> [] \<and>
         ID3_removeMetadata opts buf =
           wrap ''Failed to remove ID3 metadata: ''
             (map_sum id (\<lambda>tag. tag @ drop (tagSize (parseID3Header buf)) buf)
                (buildID3Tag opts (filter (\<lambda>fr. \<not> isAIMetadataFrame fr) frames))))) \<and>
   (hasID3 (parseID3Header buf) \<and> parseID3Frames buf (parseID3Header buf) = Inl e \<longrightarrow>
      ID3_removeMetadata opts buf = Inl (Wrapped ''Failed to remove ID3 metadata: '' e)) \<and>
   (privateKey options = None \<longrightarrow>
      createID3Tag L opts metadata existing options =
        buildID3Tag opts
          ((if id3_preserveExisting opts
            then filter (\<lambda>fr. \<not> isAIMetadataFrame fr) existing else []) @
           [createTextFrame AI_METADATA_FRAME (ascii ''AI_METADATA'') (JSON_stringify L metadata)] @
           (if includeChecksum options
            then [createTextFrame AI_CHECKSUM_FRAME (ascii ''AI_CHECKSUM'')
                    (sha256_hex L (JSON_stringify L metadata))]
            else [])))"
proof -
  have "\<not> hasID3 (parseID3Header buf) \<longrightarrow> ID3_removeMetadata opts buf = Inr buf"
    by (simp add: ID3_removeMetadata_def wrap_def)
  moreover have "hasID3 (parseID3Header buf) \<and> parseID3Frames buf (parseID3Header buf) = Inr frames \<longrightarrow>
      (list_all isAIMetadataFrame frames \<longrightarrow>
         ID3_removeMetadata opts buf = Inr (drop (tagSize (parseID3Header buf)) buf)) \<and>
      (\<not> list_all isAIMetadataFrame frames \<longrightarrow>
         filter (\<lambda>fr. \<not> isAIMetadataFrame fr) frames \<noteq> [] \<and>
         ID3_removeMetadata opts buf =
           wrap ''Failed to remove ID3 metadata: ''
             (map_sum id (\<lambda>tag. tag @ drop (tagSize (parseID3Header buf)) buf)
                (buildID3Tag opts (filter (\<lambda>fr. \<not> isAIMetadataFrame fr) frames))))"
    by (auto simp: ID3_removeMetadata_def wrap_def Let_def slice_from_def filter_empty_iff_all
        split: sum.splits)
  moreover have "hasID3 (parseID3Header buf) \<and> parseID3Frames buf (parseID3Header buf) = Inl e \<longrightarrow>
      ID3_removeMetadata opts buf = Inl (Wrapped ''Failed to remove ID3 metadata: '' e)"
    by (simp add: ID3_removeMetadata_def wrap_def)
  ultimately show ?thesis
    using createID3Tag_unsigned [of options L opts metadata existing] by blast
qed

lemma provenanceTag_bytes:
  "provenanceTag = [0x49, 0x44, 0x33, 4, 0, 0, 0, 0, 0, 25,
                    0x54, 0x58, 0x58, 0x58, 0, 0, 0, 15, 0, 0,
                    3, 0x41, 0x49, 0x5F, 0x4D, 0x45, 0x54, 0x41, 0x44, 0x41, 0x54, 0x41, 0,
                    0x7B, 0x7D, 1, 2, 3]"
  by (simp add: provenanceTag_def ascii_def)

lemma provenanceTag_header:
  "hasID3 (parseID3Header provenanceTag) \<and> tagSize (parseID3Header provenanceTag) = 35 \<and>
   majorVersion (parseID3Header provenanceTag) = Some 4"
  by (simp add: provenanceTag_bytes parseID3Header_def slice_buf_def ascii_def Let_def
      readSynchsafeInt_def readSynchsafeInt32_def byte_at_def)

lemma provenanceTag_frames:
  "parseID3Frames provenanceTag (parseID3Header provenanceTag) =
     Inr [\<lparr>frame_id = ascii ''TXXX'', frame_size = 15, frame_flags = Some [0, 0],
           frame_data = [3] @ ascii ''AI_METADATA'' @ [0] @ ascii ''{}''\<rparr>]"
  by (simp add: provenanceTag_header parseID3Frames_def)
     (simp add: provenanceTag_bytes parseFrames.simps slice_buf_def ascii_def readFrameSize_def
      readSynchsafeInt_def readSynchsafeInt32_def byte_at_def)

lemma customFrame_not_owned:
  "\<not> isAIMetadataFrame \<lparr>frame_id = ascii ''TXXX'', frame_size = 12, frame_flags = Some [0, 0],
           frame_data = [3] @ ascii ''CustomTag'' @ [0] @ ascii ''x''\<rparr>"
  by (simp add: isAIMetadataFrame_def AI_METADATA_FRAME_def parseTextFrame_def slice_from_def
      slice_buf_def ascii_def)

lemma provenanceFrame_owned:
  "isAIMetadataFrame \<lparr>frame_id = ascii ''TXXX'', frame_size = 15, frame_flags = Some [0, 0],
           frame_data = [3] @ ascii ''AI_METADATA'' @ [0] @ ascii ''{}''\<rparr>"
  by (simp add: isAIMetadataFrame_def AI_METADATA_FRAME_def parseTextFrame_def slice_from_def
      slice_buf_def ascii_def)

lemma customFrame_built:
  "buildID3Tag id3_defaults
     [\<lparr>frame_id = ascii ''TXXX'', frame_size = 12, frame_flags = Some [0, 0],
       frame_data = [3] @ ascii ''CustomTag'' @ [0] @ ascii ''x''\<rparr>] =
   Inr (ascii ''ID3'' @ [4, 0, 0, 0, 0, 8, 22] @ customFrame @ alloc 1024)"
  by (simp add: buildID3Tag_def buildFrame_def writeFrameSize_def id3_defaults_def
      utf8_char_len_def customFrame_def writeSynchsafeInt_def ascii_def alloc_def)

subsection \<open>Embedding into an ID3v2 tag\<close>

lemma buildFrames_v24:
  "id3_version opts = ascii ''2.4'' \<Longrightarrow> buildFrames opts frs = Inr (map frameBytes frs)"
  by (induction frs) (simp_all add: buildFrame_def writeFrameSize_def frameBytes_def Let_def)

lemma buildID3Tag_v24:
  "id3_version opts = ascii ''2.4'' \<Longrightarrow>
   buildID3Tag opts frs =
     Inr (ascii ''ID3'' @ [4, 0, 0] @
          writeSynchsafeInt (sum_list (map length (map frameBytes frs)) + 1024) @
          concat (map frameBytes frs) @ alloc 1024)"
  by (simp add: buildID3Tag_def buildFrames_v24 Let_def alloc_def)

lemma validate_record0: "validateMetadata record0 = Inr ()"
  by (simp add: validateMetadata_def record0_def truthy_opt_def ascii_def)

text \<open>
  C3, the ID3 handler. \<open>embedMetadata\<close> hands \<open>id3Info.existingFrames\<close> to
  \<open>_createID3Tag\<close>, and \<open>_parseID3Header\<close> always leaves that list empty: the
  frames of the old tag are never parsed, so the new tag is built as if there were none,
  whatever \<open>preserveExisting\<close> says.
\<close>

theorem ID3_embed_ignores_existing_frames:
  "ID3_embedMetadata L opts buf metadata options =
     wrap ''Failed to embed ID3 metadata: ''
       (case validateMetadata metadata of
          Inl e \<Rightarrow> Inl e
        | Inr u \<Rightarrow>
            map_sum id (\<lambda>tag. tag @ drop (tagSize (parseID3Header buf)) buf)
              (createID3Tag L opts metadata [] options))"
proof -
  have "existingFrames (parseID3Header buf) = []"
    by (simp add: parseID3Header_def no_id3_def Let_def)
  then show ?thesis
    by (simp add: ID3_embedMetadata_def Let_def slice_from_def split: sum.splits)
qed

text \<open>
  On the tag with the third-party \<open>CustomTag\<close> frame and the default options
  (\<open>preserveExisting\<close> is true), the output is the tag built from the two provenance
  frames alone, then the audio: the third-party frame is gone.
\<close>

theorem ID3_embed_ignores_existing_frames_witness:
  "id3_preserveExisting id3_defaults \<and>
   ID3_embedMetadata lib0 id3_defaults customTag record0 embed_defaults =
     Inr (ascii ''ID3'' @ [4, 0, 0] @
          writeSynchsafeInt
            (length (frameBytes (createTextFrame (ascii ''TXXX'') (ascii ''AI_METADATA'')
                                   (json_text record0))) +
             length (frameBytes (createTextFrame (ascii ''TXXX'') (ascii ''AI_CHECKSUM'')
                                   (sum_hex (json_text record0)))) + 1024) @
          frameBytes (createTextFrame (ascii ''TXXX'') (ascii ''AI_METADATA'') (json_text record0)) @
          frameBytes (createTextFrame (ascii ''TXXX'') (ascii ''AI_CHECKSUM'')
                        (sum_hex (json_text record0))) @
          alloc 1024 @ [1, 2, 3])"
proof -
  have "drop 32 customTag = [1, 2, 3]"
    by (simp add: customTag_bytes)
  moreover have "id3_version id3_defaults = ascii ''2.4''" "id3_preserveExisting id3_defaults"
    by (simp_all add: id3_defaults_def)
  ultimately show ?thesis
    using ID3_embed_ignores_existing_frames [of lib0 id3_defaults customTag record0 embed_defaults]
    by (simp add: validate_record0 customTag_header createID3Tag_def embed_defaults_def
        buildID3Tag_v24 lib0_def AI_METADATA_FRAME_def AI_CHECKSUM_FRAME_def wrap_def Let_def)
qed

subsection \<open>Walking the segments of a JPEG file\<close>

lemma markerSegment_shape:
  assumes "markerSegment s"
  obtains m hi lo p where "s = 0xFF # m # hi # lo # p" "m \<noteq> 0xDA"
    "length p + 2 = unat hi * 256 + unat lo"
proof -
  from assms have "4 \<le> length s"
    by (simp add: markerSegment_def)
  then obtain a m hi lo p where s: "s = a # m # hi # lo # p"
    using four_bytes by blast
  with assms have "a = 0xFF" "m \<noteq> 0xDA" "length p + 2 = unat hi * 256 + unat lo"
    by (auto simp: markerSegment_def)
  with s show ?thesis
    using that by blast
qed

lemma marker_not_SOS: "m \<noteq> (0xDA :: byte) \<Longrightarrow> 65280 + unat m \<noteq> JPEG_SOS"
proof
  assume m: "m \<noteq> 0xDA" and "65280 + unat m = JPEG_SOS"
  then have "unat m = unat (0xDA :: byte)"
    by (simp add: JPEG_SOS_def)
  then have "m = 0xDA"
    by (simp only: word_unat_eq_iff)
  with m show False by simp
qed

lemma parseSegments_step:
  assumes "markerSegment s"
  shows "parseSegments (front @ s @ back) (length front) =
         (case parseSegments (front @ s @ back) (length front + length s) of
            Inl e \<Rightarrow> Inl e
          | Inr segments \<Rightarrow> Inr (s # segments))"
proof -
  from assms obtain m hi lo p where s: "s = 0xFF # m # hi # lo # p" and m: "m \<noteq> 0xDA"
    and len: "length p + 2 = unat hi * 256 + unat lo"
    by (rule markerSegment_shape)
  let ?buf = "front @ s @ back"
  have n0: "?buf ! length front = 0xFF" and n1: "?buf ! (length front + 1) = m"
    and n2: "?buf ! (length front + 2) = hi" and n3: "?buf ! (length front + 2 + 1) = lo"
    by (simp_all add: s nth_append)
  have r1: "readUInt16BE ?buf (length front) = Inr (65280 + unat m)"
    using n0 n1 by (simp add: readUInt16BE_def s)
  have r2: "readUInt16BE ?buf (length front + 2) = Inr (unat hi * 256 + unat lo)"
    using n2 n3 by (simp add: readUInt16BE_def s)
  have e: "length front + 2 + (unat hi * 256 + unat lo) = length front + length s"
    using len by (simp add: s)
  have sl: "slice_buf ?buf (length front) (length front + length s) = s"
    by (simp add: slice_buf_def)
  show ?thesis
    apply (subst parseSegments.simps)
    apply (simp only: r1 r2 e sl n0 Let_def sum.case marker_not_SOS [OF m])
    apply (simp add: s)
    done
qed

lemma parseSegments_SOS:
  "parseSegments (front @ 0xFF # 0xDA # rest) (length front) = Inr [0xFF # 0xDA # rest]"
  by (subst parseSegments.simps)
     (simp add: readUInt16BE_def nth_append JPEG_SOS_def slice_from_def)

lemma parseSegments_end: "parseSegments buf (length buf) = Inr []"
  by (subst parseSegments.simps) simp

lemma parseSegments_concat:
  assumes "list_all markerSegment pre"
  shows "parseSegments (front @ concat pre @ 0xFF # 0xDA # rest) (length front) =
           Inr (pre @ [0xFF # 0xDA # rest])"
    and "parseSegments (front @ concat pre) (length front) = Inr pre"
  using assms
proof (induction pre arbitrary: front)
  case Nil
  {
    case 1
    show ?case by (simp add: parseSegments_SOS)
  next
    case 2
    show ?case by (simp add: parseSegments_end)
  }
next
  case (Cons s pre)
  {
    case 1
    then have s: "markerSegment s" and pre: "list_all markerSegment pre"
      by simp_all
    have "parseSegments ((front @ s) @ concat pre @ 0xFF # 0xDA # rest) (length (front @ s)) =
            Inr (pre @ [0xFF # 0xDA # rest])"
      using pre by (rule Cons.IH(1))
    then show ?case
      using parseSegments_step [OF s, of front "concat pre @ 0xFF # 0xDA # rest"] by simp
  next
    case 2
    then have s: "markerSegment s" and pre: "list_all markerSegment pre"
      by simp_all
    have "parseSegments ((front @ s) @ concat pre) (length (front @ s)) = Inr pre"
      using pre by (rule Cons.IH(2))
    then show ?case
      using parseSegments_step [OF s, of front "concat pre"] by simp
  }
qed

lemma parseJPEGSegments_SOS:
  assumes "list_all markerSegment pre"
  shows "parseJPEGSegments ([0xFF, 0xD8] @ concat pre @ 0xFF # 0xDA # rest) =
           Inr ([0xFF, 0xD8] # pre @ [0xFF # 0xDA # rest])"
proof -
  have "parseSegments ([0xFF, 0xD8] @ concat pre @ 0xFF # 0xDA # rest) 2 =
          Inr (pre @ [0xFF # 0xDA # rest])"
    using parseSegments_concat(1) [OF assms, of "[0xFF, 0xD8]" rest]
    by (simp add: numeral_2_eq_2)
  then show ?thesis
    by (simp add: parseJPEGSegments_def readUInt16BE_def JPEG_SOI_def slice_buf_def)
qed

lemma parseJPEGSegments_no_SOS:
  assumes "list_all markerSegment pre"
  shows "parseJPEGSegments ([0xFF, 0xD8] @ concat pre) = Inr ([0xFF, 0xD8] # pre)"
proof -
  have "parseSegments ([0xFF, 0xD8] @ concat pre) 2 = Inr pre"
    using parseSegments_concat(2) [OF assms, of "[0xFF, 0xD8]"]
    by (simp add: numeral_2_eq_2)
  then show ?thesis
    by (simp add: parseJPEGSegments_def readUInt16BE_def JPEG_SOI_def slice_buf_def)
qed

subsection \<open>Embedding into a JPEG file\<close>

lemma length_ascii [simp]: "length (ascii s) = length s"
  by (simp add: ascii_def)

lemma SOS_not_metadata: "\<not> isMetadataSegment (0xFF # 0xDA # scan)"
  by (simp add: isMetadataSegment_def isAPP1Segment_def readUInt16BE_def JPEG_APP1_def)

lemma embedJPEGMetadata_shape:
  assumes "parseJPEGSegments buf = Inr (soi # others)"
    and "embedJPEGMetadata L opts buf metadata options = Inr out"
  shows "\<exists>inserted. out = soi @ inserted @
           concat (filter (\<lambda>s. exif_preserveExisting opts \<or> \<not> isMetadataSegment s) others)"
proof -
  have f: "(\<lambda>segment. \<not> (\<not> exif_preserveExisting opts \<and> isMetadataSegment segment)) =
           (\<lambda>s. exif_preserveExisting opts \<or> \<not> isMetadataSegment s)"
    by auto
  from assms show ?thesis
    unfolding embedJPEGMetadata_def f
    by (auto split: sum.splits if_splits)
qed

lemma detect_jpeg_SOS:
  assumes "list_all markerSegment pre"
  shows "detectImageFormat ([0xFF, 0xD8] @ concat pre @ 0xFF # 0xDA # scan) = ''jpeg''"
proof (cases pre)
  case Nil
  then show ?thesis by (simp add: detect_jpeg)
next
  case (Cons s pre')
  with assms have "markerSegment s"
    by simp
  then obtain m hi lo p where "s = 0xFF # m # hi # lo # p"
    by (rule markerSegment_shape)
  with Cons show ?thesis by (simp add: detect_jpeg)
qed

text \<open>
  C9, for the files in which the walk reaches the Start-Of-Scan marker: SOI, then
  well-formed marker segments, then \<open>FF DA\<close> and any bytes. The parser returns the
  segments and, last, one block with everything from \<open>FF DA\<close> to the end of the file;
  whenever \<open>embedMetadata\<close> returns a file, it is SOI, the inserted APP1 segments, the
  segments that are kept, and that block, unchanged, at the end.
\<close>

theorem JPEG_SOS_block_last:
  assumes "list_all markerSegment pre"
  shows "parseJPEGSegments ([0xFF, 0xD8] @ concat pre @ 0xFF # 0xDA # scan) =
           Inr ([0xFF, 0xD8] # pre @ [0xFF # 0xDA # scan]) \<and>
         (EXIF_embedMetadata L opts ([0xFF, 0xD8] @ concat pre @ 0xFF # 0xDA # scan)
            metadata options = Inr out \<longrightarrow>
          (\<exists>inserted. out = [0xFF, 0xD8] @ inserted @
             concat (filter (\<lambda>s. exif_preserveExisting opts \<or> \<not> isMetadataSegment s) pre) @
             0xFF # 0xDA # scan))"
proof (intro conjI impI)
  let ?buf = "[0xFF, 0xD8] @ concat pre @ 0xFF # 0xDA # scan"
  show p: "parseJPEGSegments ?buf = Inr ([0xFF, 0xD8] # pre @ [0xFF # 0xDA # scan])"
    using assms by (rule parseJPEGSegments_SOS)
  assume "EXIF_embedMetadata L opts ?buf metadata options = Inr out"
  then have "embedJPEGMetadata L opts ?buf metadata options = Inr out"
    using detect_jpeg_SOS [OF assms, of scan]
    by (simp add: EXIF_embedMetadata_def wrap_def Let_def split: sum.splits)
  from embedJPEGMetadata_shape [OF p this]
  show "\<exists>inserted. out = [0xFF, 0xD8] @ inserted @
             concat (filter (\<lambda>s. exif_preserveExisting opts \<or> \<not> isMetadataSegment s) pre) @
             0xFF # 0xDA # scan"
    by (simp add: SOS_not_metadata)
qed

subsection \<open>The example record in a JPEG file\<close>

lemma json0:
  \<open>json_text record0 =
     ascii ''{"contentType":"audio","origin":"ai","created":"2024-01-01"}''\<close>
  by (simp add: record0_def json_quote_def ascii_def)

lemma escaped_fields0:
  "escapeXML (ascii ''audio'') = ascii ''audio''"
  "escapeXML (ascii ''ai'') = ascii ''ai''"
  "escapeXML (ascii ''2024-01-01'') = ascii ''2024-01-01''"
  by (simp_all add: escapeXML_def ascii_def startsWith_def)

lemma escaped_json0:
  \<open>escapeXML (json_text record0) =
     ascii ''{&quot;contentType&quot;:&quot;audio&quot;,&quot;origin&quot;:&quot;ai&quot;,&quot;created&quot;:&quot;2024-01-01&quot;}''\<close>
  by (simp add: json0) (simp add: escapeXML_def ascii_def startsWith_def)

lemma fields0:
  "get_prop record0 (ascii ''contentType'') = Some (JStr (ascii ''audio''))"
  "get_prop record0 (ascii ''origin'') = Some (JStr (ascii ''ai''))"
  "get_prop record0 (ascii ''created'') = Some (JStr (ascii ''2024-01-01''))"
  "get_prop record0 (ascii ''author'') = None"
  "get_prop record0 (ascii ''description'') = None"
  "get_prop record0 (ascii ''license'') = None"
  "get_prop record0 (ascii ''checksum'') = None"
  "get_prop record0 (ascii ''signature'') = None"
  by (simp_all add: record0_def ascii_def)

lemma createXMPData0: "createXMPData lib0 record0 embed_defaults = Inr xmpData0"
  by (simp add: createXMPData_def fields0 escapeXML_val_def optionalElement_def truthy_opt_def
      escaped_fields0 lib0_def embed_defaults_def xmpData0_def)

lemma length_element:
  "length (element name text) = 2 * length name + length text + 23"
  by (simp add: element_def AI_XMP_PREFIX_def)

lemma length_xmpData0: "length xmpData0 = 714"
  by (simp add: xmpData0_def length_element escaped_json0 xmpHead_def xmpTail_def indent_def
      AI_XMP_PREFIX_def AI_XMP_NAMESPACE_def sum_hex_def Let_def)

lemma createAPP1Segment0: "createAPP1Segment xmpData0 ''XMP'' = Inr xmpSegment0"
  by (simp add: createAPP1Segment_def writeUInt16BE_def JPEG_APP1_def xmpIdentifier_def
      length_xmpData0 xmpSegment0_def)

lemma markerSegment_app0: "markerSegment app0"
  by (simp add: markerSegment_def app0_def)

lemma embedJPEG0:
  assumes "parseJPEGSegments buf = Inr (soi # others)"
  shows "embedJPEGMetadata lib0 exif_defaults buf record0 embed_defaults =
           Inr (soi @ xmpSegment0 @ concat others)"
  using assms
  by (simp add: embedJPEGMetadata_def createXMPData0 createAPP1Segment0)
     (simp add: exif_defaults_def ascii_def)

lemma parse_jpeg1: "parseJPEGSegments jpeg1 = Inr [[0xFF, 0xD8], app0]"
proof -
  have "parseSegments (([0xFF, 0xD8] @ app0) @ 0 # [0, 0xFF, 0xDA, 1, 2, 3])
          (length ([0xFF, 0xD8] @ app0)) = Inr []"
    by (subst parseSegments.simps) (simp add: nth_append)
  then have "parseSegments ([0xFF, 0xD8] @ app0 @ [0, 0, 0xFF, 0xDA, 1, 2, 3])
          (length [0xFF :: byte, 0xD8] + length app0) = Inr []"
    by simp
  then have "parseSegments ([0xFF, 0xD8] @ app0 @ [0, 0, 0xFF, 0xDA, 1, 2, 3]) 2 = Inr [app0]"
    using parseSegments_step [OF markerSegment_app0, of "[0xFF, 0xD8]" "[0, 0, 0xFF, 0xDA, 1, 2, 3]"]
    by (simp add: numeral_2_eq_2)
  then show ?thesis
    by (simp add: parseJPEGSegments_def jpeg1_def readUInt16BE_def JPEG_SOI_def slice_buf_def)
qed

text \<open>
  The claim as stated fails on \<open>jpeg1\<close>, which the handler classifies as JPEG: the
  walk stops at the byte after the header segment, the block from \<open>FF DA\<close> is never
  captured, and the file that \<open>embedMetadata\<close> returns ends with the header segment.
\<close>

theorem JPEG_SOS_block_lost:
  "detectImageFormat jpeg1 = ''jpeg'' \<and>
   parseJPEGSegments jpeg1 = Inr [[0xFF, 0xD8], app0] \<and>
   EXIF_embedMetadata lib0 exif_defaults jpeg1 record0 embed_defaults =
     Inr ([0xFF, 0xD8] @ xmpSegment0 @ app0) \<and>
   \<not> endsWith ([0xFF, 0xD8] @ xmpSegment0 @ app0) [0xFF, 0xDA, 1, 2, 3]"
proof -
  have d: "detectImageFormat jpeg1 = ''jpeg''"
    by (simp add: detect_jpeg jpeg1_def app0_def)
  have "\<not> endsWith (([0xFF, 0xD8] @ xmpSegment0) @ app0) [0xFF, 0xDA, 1, 2, 3]"
    by (simp add: endsWith_def app0_def del: append_assoc)
  then show ?thesis
    using d parse_jpeg1 embedJPEG0 [OF parse_jpeg1]
    by (simp add: EXIF_embedMetadata_def validate_record0 wrap_def)
qed

theorem JPEG_SOS_block_last_witness:
  "list_all markerSegment [app0] \<and>
   parseJPEGSegments jpeg0 = Inr [[0xFF, 0xD8], app0, [0xFF, 0xDA, 1, 2, 3]] \<and>
   EXIF_embedMetadata lib0 exif_defaults jpeg0 record0 embed_defaults =
     Inr ([0xFF, 0xD8] @ xmpSegment0 @ app0 @ [0xFF, 0xDA, 1, 2, 3])"
proof -
  have m: "list_all markerSegment [app0]"
    by (simp add: markerSegment_app0)
  have j: "jpeg0 = [0xFF, 0xD8] @ concat [app0] @ 0xFF # 0xDA # [1, 2, 3]"
    by (simp add: jpeg0_def)
  have p: "parseJPEGSegments jpeg0 = Inr [[0xFF, 0xD8], app0, [0xFF, 0xDA, 1, 2, 3]]"
    using JPEG_SOS_block_last [OF m, of "[1, 2, 3]"] unfolding j by simp
  have "detectImageFormat jpeg0 = ''jpeg''"
    by (simp add: detect_jpeg jpeg0_def app0_def)
  then show ?thesis
    using m p embedJPEG0 [OF p]
    by (simp add: EXIF_embedMetadata_def validate_record0 wrap_def)
qed

subsection \<open>Parsing a tag that \<open>_buildID3Tag\<close> built\<close>

lemma buildID3Tag_builtTag:
  "id3_version opts = ascii ''2.4'' \<Longrightarrow> buildID3Tag opts frs = Inr (builtTag frs)"
  by (simp add: buildID3Tag_v24 builtTag_def)

lemma write_utf8_ascii: "is_ascii s \<Longrightarrow> length s \<le> n \<Longrightarrow> write_utf8 s n = s"
  by (induction s arbitrary: n) (auto simp: is_ascii_def utf8_char_len_def)

lemma frameBytes_plain:
  "plainFrame fr \<Longrightarrow>
   frameBytes fr = frame_id fr @ writeSynchsafeInt (length (frame_data fr)) @ [0, 0] @ frame_data fr"
  by (simp add: frameBytes_def plainFrame_def write_utf8_ascii alloc_def)

lemma slice_at:
  "buf = a @ x @ b \<Longrightarrow> length a = i \<Longrightarrow> j = i + length x \<Longrightarrow> slice_buf buf i j = x"
  by (auto simp: slice_buf_def)

lemma parseFrames_step:
  assumes "plainFrame fr"
    and "length front + length (frameBytes fr) + 4 < tagEnd"
  shows "parseFrames (front @ frameBytes fr @ back) (Some 4) tagEnd (length front) =
         (case parseFrames (front @ frameBytes fr @ back) (Some 4) tagEnd
                 (length front + length (frameBytes fr)) of
            Inl e \<Rightarrow> Inl e
          | Inr frames \<Rightarrow> Inr (reparsed fr # frames))"
proof -
  let ?id = "frame_id fr" and ?sz = "writeSynchsafeInt (length (frame_data fr))"
    and ?data = "frame_data fr"
  let ?buf = "front @ frameBytes fr @ back"
  let ?o = "length front"
  from assms(1) have id: "is_ascii ?id" "length ?id = 4" "?id \<noteq> [0, 0, 0, 0]"
    and data: "0 < length ?data" "length ?data < 2 ^ 28"
    by (simp_all add: plainFrame_def)
  have fb: "frameBytes fr = ?id @ ?sz @ [0, 0] @ ?data"
    using assms(1) by (rule frameBytes_plain)
  have len: "length (frameBytes fr) = 10 + length ?data"
    by (simp add: fb id)
  have b1: "?buf = front @ ?id @ (?sz @ [0, 0] @ ?data @ back)"
    and b2: "?buf = (front @ ?id) @ ?sz @ ([0, 0] @ ?data @ back)"
    and b3: "?buf = (front @ ?id @ ?sz) @ [0, 0] @ (?data @ back)"
    and b4: "?buf = (front @ ?id @ ?sz @ [0, 0]) @ ?data @ back"
    by (simp_all add: fb)
  have s1: "slice_buf ?buf ?o (?o + 4) = ?id"
    by (rule slice_at [OF b1]) (simp_all add: id)
  have s2: "slice_buf ?buf (?o + 4) (?o + 8) = ?sz"
    by (rule slice_at [OF b2]) (simp_all add: id)
  have s3: "slice_buf ?buf (?o + 8) (?o + 10) = [0, 0]"
    by (rule slice_at [OF b3]) (simp_all add: id)
  have s4: "slice_buf ?buf (?o + 10) (?o + 10 + length ?data) = ?data"
    by (rule slice_at [OF b4]) (simp_all add: id)
  have t: "toString_utf8 ?id = ?id"
    using id(1) by (rule toString_utf8_ascii)
  have r: "readFrameSize ?sz (Some 4) = Inr (length ?data)"
    using data(2) by (simp add: readFrameSize_def readSynchsafeInt_write)
  have c: "?o < tagEnd - 4" "\<not> ?o + 10 + length ?data > tagEnd"
    using assms(2) by (simp_all add: len)
  show ?thesis
    apply (subst parseFrames.simps)
    apply (simp only: s1 s2 s3 s4 t r c len Let_def sum.case if_True if_False id(3) data(1))
    apply (insert data(1))
    apply (simp add: reparsed_def add.assoc split: sum.splits)
    done
qed

lemma parseFrames_padding:
  "parseFrames (front @ alloc 1024 @ rest) major (length front + 1024) (length front) = Inr []"
proof -
  have "slice_buf (front @ alloc 1024 @ rest) (length front) (length front + 4) = [0, 0, 0, 0]"
    by (simp add: slice_buf_def alloc_def numeral_eq_Suc)
  then show ?thesis
    by (subst parseFrames.simps) simp
qed

lemma parseFrames_built:
  assumes "list_all plainFrame frs"
  shows "parseFrames (front @ concat (map frameBytes frs) @ alloc 1024 @ rest) (Some 4)
           (length front + sum_list (map length (map frameBytes frs)) + 1024) (length front) =
         Inr (map reparsed frs)"
  using assms
proof (induction frs arbitrary: front)
  case Nil
  then show ?case
    using parseFrames_padding [of front rest "Some 4"] by simp
next
  case (Cons fr frs)
  then have fr: "plainFrame fr" and frs: "list_all plainFrame frs"
    by simp_all
  let ?tl = "concat (map frameBytes frs) @ alloc 1024 @ rest"
  let ?end = "length front + sum_list (map length (map frameBytes (fr # frs))) + 1024"
  have "parseFrames ((front @ frameBytes fr) @ ?tl) (Some 4)
          (length (front @ frameBytes fr) + sum_list (map length (map frameBytes frs)) + 1024)
          (length (front @ frameBytes fr)) = Inr (map reparsed frs)"
    using frs by (rule Cons.IH)
  then have ih: "parseFrames (front @ frameBytes fr @ ?tl) (Some 4) ?end
          (length front + length (frameBytes fr)) = Inr (map reparsed frs)"
    by (simp add: add.assoc)
  have "length front + length (frameBytes fr) + 4 < ?end"
    by simp
  from parseFrames_step [OF fr this, of ?tl] ih show ?case
    by simp
qed

lemma builtTag_header:
  assumes "sum_list (map length (map frameBytes frs)) + 1024 < 2 ^ 28"
  shows "hasID3 (parseID3Header (builtTag frs @ rest))"
    and "tagSize (parseID3Header (builtTag frs @ rest)) = length (builtTag frs)"
    and "majorVersion (parseID3Header (builtTag frs @ rest)) = Some 4"
proof -
  let ?n = "sum_list (map length (map frameBytes frs)) + 1024"
  let ?buf = "builtTag frs @ rest"
  have b: "?buf = (ascii ''ID3'' @ [4, 0, 0]) @ writeSynchsafeInt ?n @
             (concat (map frameBytes frs) @ alloc 1024 @ rest)"
    by (simp add: builtTag_def)
  have l: "10 \<le> length ?buf" and t: "take 3 ?buf = ascii ''ID3''"
    by (simp_all add: builtTag_def)
  then show h: "hasID3 (parseID3Header ?buf)"
    by (simp add: hasID3_iff)
  have "slice_buf ?buf 6 10 = writeSynchsafeInt ?n"
    by (rule slice_at [OF b]) simp_all
  then have "readSynchsafeInt (slice_buf ?buf 6 10) = ?n"
    using assms by (simp add: readSynchsafeInt_write)
  then show "tagSize (parseID3Header ?buf) = length (builtTag frs)"
    using h by (simp add: tagSize_parseID3Header builtTag_def alloc_def length_concat comp_def)
  have "?buf ! 3 = 4"
    by (simp add: builtTag_def ascii_def)
  then show "majorVersion (parseID3Header ?buf) = Some 4"
    using l t by (simp add: parseID3Header_def Let_def slice_buf_def
        toString_utf8_is [OF is_ascii_ID3])
qed

lemma builtTag_frames:
  assumes "list_all plainFrame frs"
    and "sum_list (map length (map frameBytes frs)) + 1024 < 2 ^ 28"
  shows "parseID3Frames (builtTag frs @ rest) (parseID3Header (builtTag frs @ rest)) =
           Inr (map reparsed frs)"
proof -
  let ?front = "ascii ''ID3'' @ [4, 0, 0] @
     writeSynchsafeInt (sum_list (map length (map frameBytes frs)) + 1024)"
  have b: "builtTag frs @ rest = ?front @ concat (map frameBytes frs) @ alloc 1024 @ rest"
    by (simp add: builtTag_def)
  have l: "length ?front = 10"
    by simp
  have e: "length (builtTag frs) = length ?front + sum_list (map length (map frameBytes frs)) + 1024"
    by (simp add: builtTag_def alloc_def length_concat)
  have "parseFrames (?front @ concat (map frameBytes frs) @ alloc 1024 @ rest) (Some 4)
          (length ?front + sum_list (map length (map frameBytes frs)) + 1024) (length ?front) =
          Inr (map reparsed frs)"
    using assms(1) by (rule parseFrames_built)
  then have "parseFrames (builtTag frs @ rest) (Some 4) (length (builtTag frs)) 10 =
          Inr (map reparsed frs)"
    unfolding b [symmetric] by (simp add: e)
  then show ?thesis
    using builtTag_header [OF assms(2), of rest]
    by (simp add: parseID3Frames_def)
qed

subsection \<open>Removing twice\<close>

lemma isAIMetadataFrame_reparsed [simp]: "isAIMetadataFrame (reparsed fr) = isAIMetadataFrame fr"
  by (simp add: isAIMetadataFrame_def reparsed_def)

lemma frameBytes_reparsed [simp]: "frameBytes (reparsed fr) = frameBytes fr"
  by (simp add: frameBytes_def reparsed_def)

lemma builtTag_reparsed [simp]: "builtTag (map reparsed frs) = builtTag frs"
  by (simp add: builtTag_def comp_def)

lemma filter_kept_reparsed:
  "list_all (\<lambda>fr. \<not> isAIMetadataFrame fr) frs \<Longrightarrow>
   filter (\<lambda>fr. \<not> isAIMetadataFrame fr) (map reparsed frs) = map reparsed frs"
  by (induction frs) simp_all

lemma list_all_filter: "list_all P (filter P xs)"
  by (induction xs) simp_all

lemma ID3_remove_built:
  assumes v: "id3_version opts = ascii ''2.4''"
    and k: "kept \<noteq> []" "list_all (\<lambda>fr. \<not> isAIMetadataFrame fr) kept"
    and p: "list_all plainFrame kept"
    and n: "sum_list (map length (map frameBytes kept)) + 1024 < 2 ^ 28"
  shows "ID3_removeMetadata opts (builtTag kept @ rest) = Inr (builtTag kept @ rest)"
proof -
  let ?out = "builtTag kept @ rest"
  have h: "hasID3 (parseID3Header ?out)" "tagSize (parseID3Header ?out) = length (builtTag kept)"
    using builtTag_header [OF n, of rest] by simp_all
  have f: "parseID3Frames ?out (parseID3Header ?out) = Inr (map reparsed kept)"
    using p n by (rule builtTag_frames)
  show ?thesis
    using k(1)
    by (simp add: ID3_removeMetadata_def h f filter_kept_reparsed [OF k(2)] Let_def
        buildID3Tag_builtTag [OF v] slice_from_def wrap_def)
qed

lemma ID3_remove_twice:
  assumes v: "id3_version opts = ascii ''2.4''"
    and r: "ID3_removeMetadata opts buf = Inr out"
    and f: "parseID3Frames buf (parseID3Header buf) = Inr frames"
    and e: "list_all isAIMetadataFrame frames \<longrightarrow>
            \<not> hasID3 (parseID3Header (drop (tagSize (parseID3Header buf)) buf))"
    and p: "list_all plainFrame (filter (\<lambda>fr. \<not> isAIMetadataFrame fr) frames)"
    and n: "sum_list (map length (map frameBytes (filter (\<lambda>fr. \<not> isAIMetadataFrame fr) frames))) +
            1024 < 2 ^ 28"
  shows "ID3_removeMetadata opts out = Inr out"
proof (cases "hasID3 (parseID3Header buf)")
  case False
  with r have "out = buf"
    by (simp add: ID3_removeMetadata_def wrap_def)
  with r show ?thesis by simp
next
  case True
  let ?kept = "filter (\<lambda>fr. \<not> isAIMetadataFrame fr) frames"
  show ?thesis
  proof (cases "list_all isAIMetadataFrame frames")
    case all: True
    then have "?kept = []"
      by (simp add: filter_empty_iff_all)
    with r True f have o: "out = drop (tagSize (parseID3Header buf)) buf"
      by (simp add: ID3_removeMetadata_def wrap_def Let_def slice_from_def)
    with e all have "\<not> hasID3 (parseID3Header out)"
      by simp
    then show ?thesis
      by (simp add: ID3_removeMetadata_def wrap_def)
  next
    case some: False
    then have k: "?kept \<noteq> []"
      by (simp add: filter_empty_iff_all)
    with r True f have o: "out = builtTag ?kept @ drop (tagSize (parseID3Header buf)) buf"
      by (simp add: ID3_removeMetadata_def wrap_def Let_def slice_from_def
          buildID3Tag_builtTag [OF v])
    show ?thesis
      unfolding o using v k list_all_filter p n by (rule ID3_remove_built)
  qed
qed

lemma keep_SOI:
  "\<not> (isMetadataSegment [0xFF, 0xD8] \<and> containsAIMetadata [0xFF, 0xD8])"
  by (simp add: isMetadataSegment_def isAPP1Segment_def readUInt16BE_def JPEG_APP1_def)

lemma list_all_filter_mono: "list_all P xs \<Longrightarrow> list_all P (filter Q xs)"
  by (induction xs) simp_all

lemma detect_jpeg_structure:
  assumes "list_all markerSegment pre" and "tail = [] \<or> (\<exists>scan. tail = 0xFF # 0xDA # scan)"
  shows "detectImageFormat ([0xFF, 0xD8] @ concat pre @ tail) = ''jpeg'' \<or>
         (detectImageFormat ([0xFF, 0xD8] @ concat pre @ tail) = ''unknown'' \<and>
          pre = [] \<and> tail = [])"
proof (cases pre)
  case Nil
  with assms(2) show ?thesis
    by (auto simp: detect_jpeg detectImageFormat_def)
next
  case (Cons s pre')
  with assms(1) have "markerSegment s" by simp
  then obtain m hi lo p where "s = 0xFF # m # hi # lo # p"
    by (rule markerSegment_shape)
  with Cons show ?thesis by (simp add: detect_jpeg)
qed

lemma parseJPEGSegments_structure:
  assumes "list_all markerSegment pre" and "tail = [] \<or> (\<exists>scan. tail = 0xFF # 0xDA # scan)"
  shows "parseJPEGSegments ([0xFF, 0xD8] @ concat pre @ tail) =
           Inr ([0xFF, 0xD8] # pre @ (if tail = [] then [] else [tail]))"
  using assms(2) parseJPEGSegments_SOS [OF assms(1)] parseJPEGSegments_no_SOS [OF assms(1)]
  by auto

lemma EXIF_remove_structure:
  assumes "list_all markerSegment pre" and "tail = [] \<or> (\<exists>scan. tail = 0xFF # 0xDA # scan)"
  shows "EXIF_removeMetadata ([0xFF, 0xD8] @ concat pre @ tail) =
           Inr ([0xFF, 0xD8] @
                concat (filter (\<lambda>s. \<not> (isMetadataSegment s \<and> containsAIMetadata s)) pre) @ tail)"
proof -
  let ?buf = "[0xFF, 0xD8] @ concat pre @ tail"
  from detect_jpeg_structure [OF assms]
  consider "detectImageFormat ?buf = ''jpeg''"
    | "detectImageFormat ?buf = ''unknown''" "pre = []" "tail = []"
    by blast
  then show ?thesis
  proof cases
    case 1
    have "\<not> isMetadataSegment tail"
      using assms(2) by (auto simp: SOS_not_metadata) (simp add: isMetadataSegment_def isAPP1Segment_def)
    then show ?thesis
      using 1 parseJPEGSegments_structure [OF assms] keep_SOI
      by (simp add: EXIF_removeMetadata_def removeJPEGMetadata_def wrap_def)
  next
    case 2
    then show ?thesis
      by (simp add: EXIF_removeMetadata_def wrap_def)
  qed
qed

text \<open>
  C6, as the code has it. For the ID3 handler with the default version option: when the
  first removal returns a file, removing again returns the same file, provided the frames
  that are left are plain (four ASCII characters as identifier, data not empty, the
  rebuilt tag below \<open>2 ^ 28\<close> bytes) and, when no frame is left, the bytes after the
  tag do not start with another ID3 header. For the image handler: on a file made of
  SOI, well-formed marker segments and an optional Start-Of-Scan block, removal returns
  SOI, the segments it keeps and the block, and removing again returns the same file.
\<close>

theorem removeMetadata_idempotent:
  "(id3_version opts = ascii ''2.4'' \<and>
    ID3_removeMetadata opts buf = Inr out \<and>
    parseID3Frames buf (parseID3Header buf) = Inr frames \<and>
    (list_all isAIMetadataFrame frames \<longrightarrow>
       \<not> hasID3 (parseID3Header (drop (tagSize (parseID3Header buf)) buf))) \<and>
    list_all plainFrame (filter (\<lambda>fr. \<not> isAIMetadataFrame fr) frames) \<and>
    sum_list (map length (map frameBytes (filter (\<lambda>fr. \<not> isAIMetadataFrame fr) frames))) + 1024
      < 2 ^ 28
    \<longrightarrow> ID3_removeMetadata opts out = Inr out) \<and>
   (list_all markerSegment pre \<and> (tail = [] \<or> (\<exists>scan. tail = 0xFF # 0xDA # scan)) \<longrightarrow>
      EXIF_removeMetadata ([0xFF, 0xD8] @ concat pre @ tail) =
        Inr ([0xFF, 0xD8] @
             concat (filter (\<lambda>s. \<not> (isMetadataSegment s \<and> containsAIMetadata s)) pre) @ tail) \<and>
      EXIF_removeMetadata
        ([0xFF, 0xD8] @
         concat (filter (\<lambda>s. \<not> (isMetadataSegment s \<and> containsAIMetadata s)) pre) @ tail) =
        Inr ([0xFF, 0xD8] @
             concat (filter (\<lambda>s. \<not> (isMetadataSegment s \<and> containsAIMetadata s)) pre) @ tail))"
proof (intro conjI impI)
  assume "id3_version opts = ascii ''2.4'' \<and>
    ID3_removeMetadata opts buf = Inr out \<and>
    parseID3Frames buf (parseID3Header buf) = Inr frames \<and>
    (list_all isAIMetadataFrame frames \<longrightarrow>
       \<not> hasID3 (parseID3Header (drop (tagSize (parseID3Header buf)) buf))) \<and>
    list_all plainFrame (filter (\<lambda>fr. \<not> isAIMetadataFrame fr) frames) \<and>
    sum_list (map length (map frameBytes (filter (\<lambda>fr. \<not> isAIMetadataFrame fr) frames))) + 1024
      < 2 ^ 28"
  then show "ID3_removeMetadata opts out = Inr out"
    using ID3_remove_twice [of opts buf out frames] by blast
next
  let ?keep = "\<lambda>s. \<not> (isMetadataSegment s \<and> containsAIMetadata s)"
  assume a: "list_all markerSegment pre \<and> (tail = [] \<or> (\<exists>scan. tail = 0xFF # 0xDA # scan))"
  then show "EXIF_removeMetadata ([0xFF, 0xD8] @ concat pre @ tail) =
        Inr ([0xFF, 0xD8] @ concat (filter ?keep pre) @ tail)"
    using EXIF_remove_structure [of pre tail] by blast
  from a have "list_all markerSegment (filter ?keep pre)"
    by (simp add: list_all_filter_mono)
  with a have "EXIF_removeMetadata ([0xFF, 0xD8] @ concat (filter ?keep pre) @ tail) =
        Inr ([0xFF, 0xD8] @ concat (filter ?keep (filter ?keep pre)) @ tail)"
    using EXIF_remove_structure [of "filter ?keep pre" tail] by blast
  then show "EXIF_removeMetadata ([0xFF, 0xD8] @ concat (filter ?keep pre) @ tail) =
        Inr ([0xFF, 0xD8] @ concat (filter ?keep pre) @ tail)"
    by simp
qed

text \<open>
  The claim as stated fails for both handlers. Two tags with no frame, one after the
  other: the first removal drops the first tag and the second removal drops the other.
  A JPEG file whose last segment declares the length 0: the first removal returns four
  bytes, and on these the second removal throws, reading the length past the end.
\<close>

theorem removeMetadata_not_idempotent:
  "ID3_removeMetadata id3_defaults (emptyTag @ emptyTag) = Inr emptyTag \<and>
   ID3_removeMetadata id3_defaults emptyTag = Inr [] \<and>
   EXIF_removeMetadata [0xFF, 0xD8, 0xFF, 0xE0, 0, 0] = Inr [0xFF, 0xD8, 0xFF, 0xE0] \<and>
   EXIF_removeMetadata [0xFF, 0xD8, 0xFF, 0xE0] =
     Inl (Wrapped ''Failed to remove image metadata: '' RangeError)"
proof -
  have h: "parseID3Header (emptyTag @ emptyTag) =
     \<lparr>hasID3 = True, tagSize = 10, version = Some (ascii ''2.4.0''), flags = Some 0,
      majorVersion = Some 4, minorVersion = Some 0, existingFrames = []\<rparr>"
    "parseID3Header emptyTag =
     \<lparr>hasID3 = True, tagSize = 10, version = Some (ascii ''2.4.0''), flags = Some 0,
      majorVersion = Some 4, minorVersion = Some 0, existingFrames = []\<rparr>"
    by (simp_all add: emptyTag_def parseID3Header_def slice_buf_def ascii_def Let_def
        readSynchsafeInt_def readSynchsafeInt32_def byte_at_def dec.simps)
  have f: "parseFrames b (Some 4) 10 10 = Inr []" for b
    by (subst parseFrames.simps) simp
  have "ID3_removeMetadata id3_defaults (emptyTag @ emptyTag) = Inr emptyTag"
    "ID3_removeMetadata id3_defaults emptyTag = Inr []"
    by (simp_all add: ID3_removeMetadata_def h parseID3Frames_def f slice_from_def wrap_def)
       (simp_all add: emptyTag_def)
  moreover have "EXIF_removeMetadata [0xFF, 0xD8, 0xFF, 0xE0, 0, 0] = Inr [0xFF, 0xD8, 0xFF, 0xE0]"
    by (simp add: EXIF_removeMetadata_def detectImageFormat_def removeJPEGMetadata_def
        parseJPEGSegments_def readUInt16BE_def JPEG_SOI_def JPEG_SOS_def parseSegments.simps
        slice_buf_def isMetadataSegment_def isAPP1Segment_def JPEG_APP1_def wrap_def)
  moreover have "EXIF_removeMetadata [0xFF, 0xD8, 0xFF, 0xE0] =
     Inl (Wrapped ''Failed to remove image metadata: '' RangeError)"
    by (simp add: EXIF_removeMetadata_def detectImageFormat_def removeJPEGMetadata_def
        parseJPEGSegments_def readUInt16BE_def JPEG_SOI_def JPEG_SOS_def parseSegments.simps
        slice_buf_def wrap_def)
  ultimately show ?thesis by simp
qed

lemma customFrameParsed_plain: "plainFrame customFrameParsed \<and> \<not> isAIMetadataFrame customFrameParsed"
  using customFrame_not_owned
  by (simp add: plainFrame_def customFrameParsed_def is_ascii_def ascii_def)

lemma builtTag_custom:
  "builtTag [customFrameParsed] = ascii ''ID3'' @ [4, 0, 0, 0, 0, 8, 22] @ customFrame @ alloc 1024"
  using customFrame_built
  by (simp add: buildID3Tag_builtTag id3_defaults_def customFrameParsed_def)

lemma app0_kept: "\<not> isMetadataSegment app0"
  by (simp add: isMetadataSegment_def isAPP1Segment_def app0_def readUInt16BE_def JPEG_APP1_def)

lemma remove_customTag:
  "ID3_removeMetadata id3_defaults customTag =
     Inr (ascii ''ID3'' @ [4, 0, 0, 0, 0, 8, 22] @ customFrame @ alloc 1024 @ [1, 2, 3])"
proof -
  have "drop 32 customTag = [1, 2, 3]"
    by (simp add: customTag_bytes)
  then show ?thesis
    using customFrame_not_owned
    by (simp add: ID3_removeMetadata_def customTag_header
        customTag_frames [unfolded customTag_header] customFrame_built [simplified]
        slice_from_def wrap_def)
qed

text \<open>
  The tag with the third-party frame is rebuilt by the first removal and left as it is
  by the second; the well-formed JPEG file is returned as it is.
\<close>

theorem removeMetadata_idempotent_witness:
  "ID3_removeMetadata id3_defaults customTag = Inr (builtTag [customFrameParsed] @ [1, 2, 3]) \<and>
   ID3_removeMetadata id3_defaults (builtTag [customFrameParsed] @ [1, 2, 3]) =
     Inr (builtTag [customFrameParsed] @ [1, 2, 3]) \<and>
   EXIF_removeMetadata jpeg0 = Inr jpeg0"
proof -
  let ?out = "builtTag [customFrameParsed] @ [1, 2, 3]"
  have r: "ID3_removeMetadata id3_defaults customTag = Inr ?out"
    by (simp add: remove_customTag builtTag_custom)
  have f: "parseID3Frames customTag (parseID3Header customTag) = Inr [customFrameParsed]"
    by (simp add: customTag_frames customFrameParsed_def)
  have n: "sum_list (map length (map frameBytes [customFrameParsed])) + 1024 < 2 ^ 28"
    by (simp add: frameBytes_plain customFrameParsed_plain) (simp add: customFrameParsed_def)
  have v: "id3_version id3_defaults = ascii ''2.4''"
    by (simp add: id3_defaults_def)
  have j: "jpeg0 = [0xFF, 0xD8] @ concat [app0] @ [0xFF, 0xDA, 1, 2, 3]"
    by (simp add: jpeg0_def)
  have m: "list_all markerSegment [app0]"
    by (simp add: markerSegment_app0)
  show ?thesis
    using r f n v m customFrameParsed_plain app0_kept
      removeMetadata_idempotent [of id3_defaults customTag ?out "[customFrameParsed]"
        "[app0]" "[0xFF, 0xDA, 1, 2, 3]"]
    unfolding j by simp
qed

subsection \<open>Extraction from a freshly built tag\<close>

lemma parseTextFrame_metadata:
  "parseTextFrame (0x03 # ascii ''AI_METADATA'' @ 0 # v) = (ascii ''AI_METADATA'', toString_utf8 v)"
  by (simp add: parseTextFrame_def slice_from_def slice_buf_def ascii_def)

lemma parseTextFrame_checksum:
  "parseTextFrame (0x03 # ascii ''AI_CHECKSUM'' @ 0 # v) = (ascii ''AI_CHECKSUM'', toString_utf8 v)"
  by (simp add: parseTextFrame_def slice_from_def slice_buf_def ascii_def)

lemma descriptions_differ: "ascii ''AI_CHECKSUM'' \<noteq> ascii ''AI_METADATA''"
  by (simp add: ascii_def)

lemma extractStep_metadata:
  "toString_utf8 v = v \<Longrightarrow> JSON_parse L v = Some R \<Longrightarrow>
   extractStep L (m, c, s) (reparsed (createTextFrame AI_METADATA_FRAME (ascii ''AI_METADATA'') v)) =
     (R, c, s)"
  by (simp add: extractStep_def reparsed_def createTextFrame_def parseTextFrame_metadata Let_def)

lemma extractStep_checksum:
  "toString_utf8 v = v \<Longrightarrow>
   extractStep L (m, c, s) (reparsed (createTextFrame AI_CHECKSUM_FRAME (ascii ''AI_CHECKSUM'') v)) =
     (m, Some v, s)"
  by (simp add: extractStep_def reparsed_def createTextFrame_def parseTextFrame_checksum Let_def
      AI_CHECKSUM_FRAME_def AI_METADATA_FRAME_def descriptions_differ)

lemma foldl_provenanceFrames:
  assumes "library_facts L R"
  shows "foldl (extractStep L) (JNull, None, None) (map reparsed (provenanceFrames L R options)) =
           (R, if includeChecksum options then Some (sha256_hex L (JSON_stringify L R)) else None,
            None)"
  using assms
  by (simp add: provenanceFrames_def library_facts_def extractStep_metadata extractStep_checksum)

lemma plain_text_frame:
  "length v < 2 ^ 27 \<Longrightarrow> length d \<le> 64 \<Longrightarrow> is_ascii d \<Longrightarrow>
   plainFrame (createTextFrame (ascii ''TXXX'') d v)"
  by (simp add: plainFrame_def createTextFrame_def Let_def) (simp add: is_ascii_def ascii_def)

lemma length_plain_text_frame:
  "length (frameBytes (createTextFrame (ascii ''TXXX'') d v)) = 12 + length d + length v"
  by (simp add: frameBytes_def createTextFrame_def Let_def utf8_char_len_def ascii_def alloc_def)

lemma provenanceFrames_plain:
  assumes "library_facts L R"
  shows "list_all plainFrame (provenanceFrames L R options)"
    and "sum_list (map length (map frameBytes (provenanceFrames L R options))) + 1024 < 2 ^ 28"
    and "list_all isAIMetadataFrame (provenanceFrames L R options)"
proof -
  have a: "is_ascii (ascii ''AI_METADATA'')" "is_ascii (ascii ''AI_CHECKSUM'')"
    by (simp_all add: is_ascii_def ascii_def)
  from assms have l: "length (JSON_stringify L R) < 2 ^ 27"
    "length (sha256_hex L (JSON_stringify L R)) \<le> 64"
    by (simp_all add: library_facts_def)
  then have l2: "length (sha256_hex L (JSON_stringify L R)) < 2 ^ 27"
    by simp
  show "list_all plainFrame (provenanceFrames L R options)"
    using l(1) l2 a
    by (simp add: provenanceFrames_def AI_METADATA_FRAME_def AI_CHECKSUM_FRAME_def plain_text_frame)
  show "sum_list (map length (map frameBytes (provenanceFrames L R options))) + 1024 < 2 ^ 28"
    using l
    by (simp add: provenanceFrames_def AI_METADATA_FRAME_def AI_CHECKSUM_FRAME_def
        length_plain_text_frame)
  show "list_all isAIMetadataFrame (provenanceFrames L R options)"
    by (simp add: provenanceFrames_def isAIMetadataFrame_def createTextFrame_def
        AI_CHECKSUM_FRAME_def AI_METADATA_FRAME_def parseTextFrame_metadata parseTextFrame_checksum)
qed

lemma ID3_embed_plain:
  assumes "id3_version opts = ascii ''2.4''" and "privateKey options = None"
    and "validateMetadata R = Inr ()"
  shows "ID3_embedMetadata L opts C R options =
           Inr (builtTag (provenanceFrames L R options) @ drop (tagSize (parseID3Header C)) C)"
proof -
  have "existingFrames (parseID3Header C) = []"
    by (simp add: parseID3Header_def no_id3_def Let_def)
  then show ?thesis
    using assms
    by (simp add: ID3_embedMetadata_def createID3Tag_unsigned buildID3Tag_builtTag
        provenanceFrames_def slice_from_def wrap_def Let_def)
qed

lemma validated_truthy: "validateMetadata R = Inr () \<Longrightarrow> truthy R"
  by (auto simp: validateMetadata_def split: if_splits)

lemma set_prop_truthy: "set_prop m k v = Inr m' \<Longrightarrow> truthy m'"
  by (cases m) auto

lemma set_prop_object:
  "truthy m \<Longrightarrow> typeof_object m \<Longrightarrow> \<exists>m'. set_prop m k v = Inr m'"
  by (cases m) auto

text \<open>
  What \<open>extractMetadata\<close> returns on the freshly built tag, whatever bytes follow it:
  the record with the checksum frame's text as \<open>checksum\<close>, then the derived flags.
\<close>

lemma ID3_extract_built:
  assumes "library_facts L R" and "validateMetadata R = Inr ()"
  shows "ID3_extractMetadata L (builtTag (provenanceFrames L R options) @ payload) =
           wrap ''Failed to extract ID3 metadata: ''
             (case (if includeChecksum options
                    then set_prop R (ascii ''checksum'') (JStr (sha256_hex L (JSON_stringify L R)))
                    else Inr R) of
                Inl e \<Rightarrow> Inl e
              | Inr m \<Rightarrow> addVerification L m (builtTag (provenanceFrames L R options) @ payload))"
proof -
  let ?E = "builtTag (provenanceFrames L R options) @ payload"
  have h: "hasID3 (parseID3Header ?E)"
    using builtTag_header(1) [OF provenanceFrames_plain(2) [OF assms(1)]] .
  have f: "parseID3Frames ?E (parseID3Header ?E) = Inr (map reparsed (provenanceFrames L R options))"
    using provenanceFrames_plain(1) [OF assms(1)] provenanceFrames_plain(2) [OF assms(1)]
    by (rule builtTag_frames)
  have t: "truthy R"
    using assms(2) by (rule validated_truthy)
  have n: "sha256_hex L (JSON_stringify L R) \<noteq> []"
    using assms(1) by (simp add: library_facts_def)
  show ?thesis
    using t n
    by (auto simp: ID3_extractMetadata_def h f extractAIFrames_def
        foldl_provenanceFrames [OF assms(1)] wrap_def Let_def
        split: sum.splits dest: set_prop_truthy)
qed

subsection \<open>Properties of the extracted record\<close>

lemma get_prop_set_prop:
  "set_prop m k v = Inr m' \<Longrightarrow> get_prop m' k' = (if k' = k then Some v else get_prop m k')"
  by (cases m) (auto simp: update_conv')

lemma set_prop_typeof: "set_prop m k v = Inr m' \<Longrightarrow> typeof_object m'"
  by (cases m) auto

lemma validated_object: "validateMetadata R = Inr () \<Longrightarrow> typeof_object R"
  by (auto simp: validateMetadata_def split: if_splits)

lemma verified_differs: "ascii ''_verified'' \<noteq> ascii ''_signatureValid''"
  "ascii ''checksum'' \<noteq> ascii ''_verified''" "ascii ''checksum'' \<noteq> ascii ''_signatureValid''"
  "ascii ''signature'' \<noteq> ascii ''_verified''" "ascii ''signature'' \<noteq> ascii ''checksum''"
  by (simp_all add: ascii_def)

lemma addVerification_object:
  assumes "truthy m" and "typeof_object m"
  shows "\<exists>m'. addVerification L m buf = Inr m' \<and>
           (\<forall>k. k \<noteq> ascii ''_verified'' \<and> k \<noteq> ascii ''_signatureValid'' \<longrightarrow>
                get_prop m' k = get_prop m k) \<and>
           (truthy_opt (get_prop m (ascii ''checksum'')) \<longrightarrow>
              get_prop m' (ascii ''_verified'') = Some (JBool (verifyChecksum L m buf)))"
proof -
  obtain m1 where m1: "(if truthy_opt (get_prop m (ascii ''checksum''))
            then set_prop m (ascii ''_verified'') (JBool (verifyChecksum L m buf))
            else Inr m) = Inr m1"
    using set_prop_object [OF assms] by (cases "truthy_opt (get_prop m (ascii ''checksum''))") auto
  then have p1: "\<forall>k. k \<noteq> ascii ''_verified'' \<longrightarrow> get_prop m1 k = get_prop m k"
    and v1: "truthy_opt (get_prop m (ascii ''checksum'')) \<longrightarrow>
              get_prop m1 (ascii ''_verified'') = Some (JBool (verifyChecksum L m buf))"
    and o1: "truthy m1" "typeof_object m1"
    using assms
    by (auto simp: get_prop_set_prop split: if_splits dest: set_prop_truthy set_prop_typeof)
  obtain m2 where m2: "(if truthy_opt (get_prop m1 (ascii ''signature''))
          then set_prop m1 (ascii ''_signatureValid'') (JBool (verifySignature m1))
          else Inr m1) = Inr m2"
    using set_prop_object [OF o1] by (cases "truthy_opt (get_prop m1 (ascii ''signature''))") auto
  then have p2: "\<forall>k. k \<noteq> ascii ''_signatureValid'' \<longrightarrow> get_prop m2 k = get_prop m1 k"
    by (auto simp: get_prop_set_prop split: if_splits)
  have "addVerification L m buf = Inr m2"
    using m1 m2 by (simp add: addVerification_def)
  moreover have "\<forall>k. k \<noteq> ascii ''_verified'' \<and> k \<noteq> ascii ''_signatureValid'' \<longrightarrow>
                get_prop m2 k = get_prop m k"
    using p1 p2 by simp
  moreover have "truthy_opt (get_prop m (ascii ''checksum'')) \<longrightarrow>
              get_prop m2 (ascii ''_verified'') = Some (JBool (verifyChecksum L m buf))"
    using v1 p2 verified_differs by simp
  ultimately show ?thesis by blast
qed

lemma ID3_roundtrip:
  assumes v: "id3_version opts = ascii ''2.4''" and key: "privateKey options = None"
    and valid: "validateMetadata R = Inr ()" and lf: "library_facts L R"
  shows "\<exists>E m m1.
           ID3_embedMetadata L opts C R options = Inr E \<and>
           ID3_extractMetadata L E = Inr m \<and>
           (\<forall>k. \<not> derivedName k \<longrightarrow> get_prop m k = get_prop R k) \<and>
           get_prop m (ascii ''checksum'') =
             (if includeChecksum options then Some (JStr (sha256_hex L (JSON_stringify L R)))
              else get_prop R (ascii ''checksum'')) \<and>
           (if includeChecksum options
            then set_prop R (ascii ''checksum'') (JStr (sha256_hex L (JSON_stringify L R)))
            else Inr R) = Inr m1 \<and>
           addVerification L m1 E = Inr m"
proof -
  let ?H = "sha256_hex L (JSON_stringify L R)"
  let ?E = "builtTag (provenanceFrames L R options) @ drop (tagSize (parseID3Header C)) C"
  have e: "ID3_embedMetadata L opts C R options = Inr ?E"
    using v key valid by (rule ID3_embed_plain)
  have t: "truthy R" "typeof_object R"
    using valid by (simp_all add: validated_truthy validated_object)
  obtain m1 where m1: "(if includeChecksum options
            then set_prop R (ascii ''checksum'') (JStr ?H) else Inr R) = Inr m1"
    using set_prop_object [OF t] by (cases "includeChecksum options") auto
  then have o1: "truthy m1" "typeof_object m1"
    using t by (auto split: if_splits dest: set_prop_truthy set_prop_typeof)
  have p1: "\<forall>k. k \<noteq> ascii ''checksum'' \<longrightarrow> get_prop m1 k = get_prop R k"
    and c1: "get_prop m1 (ascii ''checksum'') =
             (if includeChecksum options then Some (JStr ?H) else get_prop R (ascii ''checksum''))"
    using m1 by (auto simp: get_prop_set_prop split: if_splits)
  from addVerification_object [OF o1, of L ?E]
  obtain m where m: "addVerification L m1 ?E = Inr m"
    and pm: "\<forall>k. k \<noteq> ascii ''_verified'' \<and> k \<noteq> ascii ''_signatureValid'' \<longrightarrow>
                get_prop m k = get_prop m1 k"
    by blast
  have x: "ID3_extractMetadata L ?E = Inr m"
    using ID3_extract_built [OF lf valid, of options "drop (tagSize (parseID3Header C)) C"] m1 m
    by (simp add: wrap_def)
  have "\<forall>k. \<not> derivedName k \<longrightarrow> get_prop m k = get_prop R k"
    using p1 pm by (simp add: derivedName_def)
  moreover have "get_prop m (ascii ''checksum'') =
             (if includeChecksum options then Some (JStr ?H) else get_prop R (ascii ''checksum''))"
    using c1 pm verified_differs by simp
  ultimately show ?thesis
    using e x m1 m by blast
qed

subsection \<open>Removing the tag that embedding built\<close>

lemma ID3_remove_provenance:
  assumes "id3_version opts = ascii ''2.4''" and "library_facts L R"
  shows "ID3_removeMetadata opts (builtTag (provenanceFrames L R options) @ payload) = Inr payload"
proof -
  let ?fs = "provenanceFrames L R options"
  let ?E = "builtTag ?fs @ payload"
  have n: "sum_list (map length (map frameBytes ?fs)) + 1024 < 2 ^ 28"
    using assms(2) by (rule provenanceFrames_plain(2))
  have h: "hasID3 (parseID3Header ?E)" "tagSize (parseID3Header ?E) = length (builtTag ?fs)"
    using builtTag_header [OF n, of payload] by simp_all
  have f: "parseID3Frames ?E (parseID3Header ?E) = Inr (map reparsed ?fs)"
    using provenanceFrames_plain(1) [OF assms(2)] n by (rule builtTag_frames)
  have "list_all isAIMetadataFrame (map reparsed ?fs)"
    using provenanceFrames_plain(3) [OF assms(2), of options] by (simp add: list_all_iff)
  then have "filter (\<lambda>fr. \<not> isAIMetadataFrame fr) (map reparsed ?fs) = []"
    by (simp add: filter_empty_iff_all)
  then show ?thesis
    by (simp add: ID3_removeMetadata_def h f Let_def slice_from_def wrap_def)
qed

subsection \<open>The example record in an ID3v2 tag\<close>

lemma is_ascii_json0: "is_ascii (json_text record0)"
  by (simp add: json0) (simp add: is_ascii_def ascii_def)

lemma sum_hex0: "sum_hex (json_text record0) = ascii ''53''"
  by (simp add: json0) (simp add: sum_hex_def hex_digit_def ascii_def)

lemma read_json0: "json_read (json_text record0) = Some record0"
  by (simp add: record0_def json_read_def json_quote_def ascii_def read_string_def)

lemma library_facts0: "library_facts lib0 record0"
proof -
  have "length (json_text record0) < 2 ^ 27"
    by (simp add: json0)
  moreover have "toString_utf8 (ascii ''53'') = ascii ''53''" "ascii ''53'' \<noteq> []"
    by (simp_all add: ascii_def)
  ultimately show ?thesis
    using read_json0 toString_utf8_ascii [OF is_ascii_json0]
    by (simp add: library_facts_def lib0_def sum_hex0)
qed

lemma embed0: "ID3_embedMetadata lib0 id3_defaults [1, 2, 3] record0 embed_defaults = Inr (tag0 @ [1, 2, 3])"
proof -
  have "tagSize (parseID3Header [1, 2, 3]) = 0"
    by (simp add: parseID3Header_def no_id3_def)
  then show ?thesis
    using ID3_embed_plain [of id3_defaults embed_defaults record0 lib0 "[1, 2, 3]"]
    by (simp add: id3_defaults_def embed_defaults_def validate_record0 tag0_def)
qed

lemma record0_fields:
  "JObj [(ascii ''contentType'', JStr (ascii ''audio'')), (ascii ''origin'', JStr (ascii ''ai'')),
         (ascii ''created'', JStr (ascii ''2024-01-01''))] = record0"
  by (simp add: record0_def)

lemma verify_extracted0: "verifyChecksum lib0 extracted0 buf"
proof -
  have c: "AList.delete (ascii ''_signatureValid'')
          (AList.delete (ascii ''_verified'')
            (AList.delete (ascii ''checksum'') (spread extracted0))) =
        [(ascii ''contentType'', JStr (ascii ''audio'')), (ascii ''origin'', JStr (ascii ''ai'')),
         (ascii ''created'', JStr (ascii ''2024-01-01''))]"
    by (simp add: extracted0_def ascii_def)
  have g: "get_prop extracted0 (ascii ''checksum'') = Some (JStr (ascii ''53''))"
    by (simp add: extracted0_def ascii_def)
  have l: "JSON_stringify lib0 = json_text" "sha256_hex lib0 = sum_hex"
    by (simp_all add: lib0_def)
  show ?thesis
    unfolding verifyChecksum_def Let_def c g l record0_fields sum_hex0 by simp
qed

lemma addVerification0:
  "addVerification lib0
     (JObj [(ascii ''contentType'', JStr (ascii ''audio'')),
            (ascii ''origin'', JStr (ascii ''ai'')),
            (ascii ''created'', JStr (ascii ''2024-01-01'')),
            (ascii ''checksum'', JStr (ascii ''53''))]) b = Inr extracted0"
proof -
  let ?m1 = "JObj [(ascii ''contentType'', JStr (ascii ''audio'')),
                   (ascii ''origin'', JStr (ascii ''ai'')),
                   (ascii ''created'', JStr (ascii ''2024-01-01'')),
                   (ascii ''checksum'', JStr (ascii ''53''))]"
  have c: "AList.delete (ascii ''_signatureValid'')
          (AList.delete (ascii ''_verified'')
            (AList.delete (ascii ''checksum'') (spread ?m1))) =
        [(ascii ''contentType'', JStr (ascii ''audio'')), (ascii ''origin'', JStr (ascii ''ai'')),
         (ascii ''created'', JStr (ascii ''2024-01-01''))]"
    by (simp add: ascii_def)
  have g: "get_prop ?m1 (ascii ''checksum'') = Some (JStr (ascii ''53''))"
    by (simp add: ascii_def)
  have l: "JSON_stringify lib0 = json_text" "sha256_hex lib0 = sum_hex"
    by (simp_all add: lib0_def)
  have v: "verifyChecksum lib0 ?m1 b"
    unfolding verifyChecksum_def Let_def c g l record0_fields sum_hex0 by simp
  have t: "truthy_opt (Some (JStr (ascii ''53'')))"
    by (simp add: truthy_opt_def ascii_def)
  have g2: "get_prop extracted0 (ascii ''signature'') = None"
    by (simp add: extracted0_def ascii_def)
  have u: "set_prop ?m1 (ascii ''_verified'') (JBool True) = Inr extracted0"
    by (simp add: extracted0_def ascii_def)
  show ?thesis
    unfolding addVerification_def g
    by (simp only: t v if_True u sum.case g2) (simp add: truthy_opt_def)
qed

lemma extract0: "ID3_extractMetadata lib0 (tag0 @ payload) = Inr extracted0"
proof -
  have s: "set_prop record0 (ascii ''checksum'') (JStr (ascii ''53'')) =
             Inr (JObj [(ascii ''contentType'', JStr (ascii ''audio'')),
                        (ascii ''origin'', JStr (ascii ''ai'')),
                        (ascii ''created'', JStr (ascii ''2024-01-01'')),
                        (ascii ''checksum'', JStr (ascii ''53''))])"
    by (simp add: record0_def ascii_def)
  have l: "JSON_stringify lib0 = json_text" "sha256_hex lib0 = sum_hex"
    by (simp_all add: lib0_def)
  have i: "includeChecksum embed_defaults"
    by (simp add: embed_defaults_def)
  show ?thesis
    unfolding tag0_def ID3_extract_built [OF library_facts0 validate_record0]
    by (simp add: i l sum_hex0 s addVerification0 wrap_def)
qed

text \<open>
  C1, on the record \<open>record0\<close> and the content \<open>01 02 03\<close>, with the default options.
  \<open>embedMetadata\<close> returns the new tag followed by the content, and \<open>removeMetadata\<close>
  strips the tag again. The checksum in the tag is the hash of the JSON text of the
  record. After the last byte of the content is changed to \<open>04\<close>, \<open>extractMetadata\<close>
  returns the same record with \<open>_verified\<close> true, and \<open>_verifyChecksum\<close> on that record
  is true against the changed content: the buffer handed to it is not read.
\<close>

theorem checksum_ignores_content:
  "ID3_embedMetadata lib0 id3_defaults [1, 2, 3] record0 embed_defaults = Inr (tag0 @ [1, 2, 3]) \<and>
   ID3_removeMetadata id3_defaults (tag0 @ [1, 2, 3]) = Inr [1, 2, 3] \<and>
   ID3_extractMetadata lib0 (tag0 @ [1, 2, 3]) = Inr extracted0 \<and>
   ID3_extractMetadata lib0 (tag0 @ [1, 2, 4]) = Inr extracted0 \<and>
   get_prop extracted0 (ascii ''checksum'') = Some (JStr (sum_hex (json_text record0))) \<and>
   get_prop extracted0 (ascii ''_verified'') = Some (JBool True) \<and>
   verifyChecksum lib0 extracted0 [1, 2, 3] \<and>
   verifyChecksum lib0 extracted0 [1, 2, 4]"
proof -
  have "id3_version id3_defaults = ascii ''2.4''"
    by (simp add: id3_defaults_def)
  then have "ID3_removeMetadata id3_defaults (tag0 @ [1, 2, 3]) = Inr [1, 2, 3]"
    unfolding tag0_def using library_facts0 by (rule ID3_remove_provenance)
  then show ?thesis
    using embed0 extract0 [of "[1, 2, 3]"] extract0 [of "[1, 2, 4]"]
      verify_extracted0 [of "[1, 2, 3]"] verify_extracted0 [of "[1, 2, 4]"] sum_hex0
    by (simp add: extracted0_def ascii_def)
qed

subsection \<open>A record with a checksum of its own in an ID3v2 tag\<close>

lemma json1:
  \<open>json_text record1 =
     ascii ''{"contentType":"audio","origin":"ai","created":"2024-01-01","checksum":"aa"}''\<close>
  by (simp add: record1_def json_quote_def ascii_def)

lemma sum_hex1: "sum_hex (json_text record1) = ascii ''56''"
  by (simp add: json1) (simp add: sum_hex_def hex_digit_def ascii_def)

lemma validate_record1: "validateMetadata record1 = Inr ()"
  by (simp add: validateMetadata_def record1_def truthy_opt_def ascii_def)

lemma library_facts1: "library_facts lib0 record1"
proof -
  have "length (json_text record1) < 2 ^ 27"
    by (simp add: json1)
  moreover have "toString_utf8 (ascii ''56'') = ascii ''56''" "ascii ''56'' \<noteq> []"
    by (simp_all add: ascii_def)
  moreover have "is_ascii (json_text record1)"
    by (simp add: json1) (simp add: is_ascii_def ascii_def)
  moreover have "json_read (json_text record1) = Some record1"
    by (simp add: record1_def json_read_def json_quote_def ascii_def read_string_def)
  ultimately show ?thesis
    by (simp add: library_facts_def lib0_def sum_hex1 toString_utf8_ascii)
qed

lemma embed1: "ID3_embedMetadata lib0 id3_defaults [1, 2, 3] record1 embed_defaults = Inr (tag1 @ [1, 2, 3])"
proof -
  have "tagSize (parseID3Header [1, 2, 3]) = 0"
    by (simp add: parseID3Header_def no_id3_def)
  then show ?thesis
    using ID3_embed_plain [of id3_defaults embed_defaults record1 lib0 "[1, 2, 3]"]
    by (simp add: id3_defaults_def embed_defaults_def validate_record1 tag1_def)
qed

lemma addVerification1:
  "addVerification lib0
     (JObj [(ascii ''contentType'', JStr (ascii ''audio'')),
            (ascii ''origin'', JStr (ascii ''ai'')),
            (ascii ''created'', JStr (ascii ''2024-01-01'')),
            (ascii ''checksum'', JStr (ascii ''56''))]) b = Inr extracted1"
proof -
  let ?m1 = "JObj [(ascii ''contentType'', JStr (ascii ''audio'')),
                   (ascii ''origin'', JStr (ascii ''ai'')),
                   (ascii ''created'', JStr (ascii ''2024-01-01'')),
                   (ascii ''checksum'', JStr (ascii ''56''))]"
  have c: "AList.delete (ascii ''_signatureValid'')
          (AList.delete (ascii ''_verified'')
            (AList.delete (ascii ''checksum'') (spread ?m1))) =
        [(ascii ''contentType'', JStr (ascii ''audio'')), (ascii ''origin'', JStr (ascii ''ai'')),
         (ascii ''created'', JStr (ascii ''2024-01-01''))]"
    by (simp add: ascii_def)
  have g: "get_prop ?m1 (ascii ''checksum'') = Some (JStr (ascii ''56''))"
    by (simp add: ascii_def)
  have l: "JSON_stringify lib0 = json_text" "sha256_hex lib0 = sum_hex"
    by (simp_all add: lib0_def)
  have d: "ascii ''53'' \<noteq> ascii ''56''"
    by (simp add: ascii_def)
  have v: "\<not> verifyChecksum lib0 ?m1 b"
    unfolding verifyChecksum_def Let_def c g l record0_fields sum_hex0 using d by simp
  have t: "truthy_opt (Some (JStr (ascii ''56'')))"
    by (simp add: truthy_opt_def ascii_def)
  have g2: "get_prop extracted1 (ascii ''signature'') = None"
    by (simp add: extracted1_def ascii_def)
  have u: "set_prop ?m1 (ascii ''_verified'') (JBool False) = Inr extracted1"
    by (simp add: extracted1_def ascii_def)
  show ?thesis
    unfolding addVerification_def g
    by (simp only: t v if_True u sum.case g2) (simp add: truthy_opt_def)
qed

lemma extract1: "ID3_extractMetadata lib0 (tag1 @ payload) = Inr extracted1"
proof -
  have s: "set_prop record1 (ascii ''checksum'') (JStr (ascii ''56'')) =
             Inr (JObj [(ascii ''contentType'', JStr (ascii ''audio'')),
                        (ascii ''origin'', JStr (ascii ''ai'')),
                        (ascii ''created'', JStr (ascii ''2024-01-01'')),
                        (ascii ''checksum'', JStr (ascii ''56''))])"
    by (simp add: record1_def ascii_def)
  have l: "JSON_stringify lib0 = json_text" "sha256_hex lib0 = sum_hex"
    by (simp_all add: lib0_def)
  have i: "includeChecksum embed_defaults"
    by (simp add: embed_defaults_def)
  show ?thesis
    unfolding tag1_def ID3_extract_built [OF library_facts1 validate_record1]
    by (simp add: i l sum_hex1 s addVerification1 wrap_def)
qed

text \<open>
  The claim as stated fails on a record that has a \<open>checksum\<close>: embedding it into the
  buffer \<open>01 02 03\<close> with the default options and extracting it again returns a record
  whose \<open>checksum\<close> is the hash of the JSON text, not the one of the record.
\<close>

theorem roundtrip_changes_checksum:
  "validateMetadata record1 = Inr () \<and>
   ID3_embedMetadata lib0 id3_defaults [1, 2, 3] record1 embed_defaults = Inr (tag1 @ [1, 2, 3]) \<and>
   ID3_extractMetadata lib0 (tag1 @ [1, 2, 3]) = Inr extracted1 \<and>
   get_prop record1 (ascii ''checksum'') = Some (JStr (ascii ''aa'')) \<and>
   get_prop extracted1 (ascii ''checksum'') = Some (JStr (ascii ''56'')) \<and>
   ascii ''aa'' \<noteq> ascii ''56''"
  using validate_record1 embed1 extract1 [of "[1, 2, 3]"]
  by (simp add: record1_def extracted1_def ascii_def)

subsection \<open>Searching and replacing literal patterns\<close>

lemma mismatch_append: "mismatch s p \<Longrightarrow> mismatch (s @ t) p"
  by (induction s p rule: mismatch.induct) auto

lemma mismatch_startsWith: "mismatch s p \<Longrightarrow> \<not> startsWith (s @ t) p"
proof (induction s p rule: mismatch.induct)
  case (3 c cs q qs)
  then show ?case
    by (auto simp: startsWith_def)
qed simp_all

lemma matchFree_append: "matchFree p s \<Longrightarrow> matchFree p t \<Longrightarrow> matchFree p (s @ t)"
proof (induction s)
  case Nil
  then show ?case by simp
next
  case (Cons c cs)
  then have "mismatch (c # cs) p"
    by simp
  then have "mismatch ((c # cs) @ t) p"
    by (rule mismatch_append)
  with Cons show ?case
    by simp
qed

lemma matchFree_no_head: "q \<notin> set s \<Longrightarrow> matchFree (q # qs) s"
  by (induction s) auto

lemma indexOf_matchFree:
  "matchFree p s \<Longrightarrow> indexOf (s @ t) p = map_option (\<lambda>i. length s + i) (indexOf t p)"
proof (induction s)
  case Nil
  then show ?case
    by (simp add: option.map_ident)
next
  case (Cons c cs)
  then have "mismatch (c # cs) p"
    by simp
  then have "\<not> startsWith ((c # cs) @ t) p"
    by (rule mismatch_startsWith)
  with Cons show ?case
    by (simp add: option.map_comp comp_def)
qed

lemma indexOf_here: "p \<noteq> [] \<Longrightarrow> indexOf (p @ t) p = Some 0"
  by (cases p) (simp_all add: startsWith_def)

lemma replaceAll_matchFree:
  "matchFree p s \<Longrightarrow> replaceAll p r (s @ t) = s @ replaceAll p r t"
proof (induction s)
  case Nil
  then show ?case by simp
next
  case (Cons c cs)
  then have "mismatch (c # cs) p"
    by simp
  then have "\<not> startsWith ((c # cs) @ t) p"
    by (rule mismatch_startsWith)
  with Cons show ?case
    by simp
qed

lemma replaceAll_here: "p \<noteq> [] \<Longrightarrow> replaceAll p r (p @ t) = r @ replaceAll p r t"
  by (cases p) (simp_all add: startsWith_def)

lemma replaceAll_pieces:
  assumes "p \<noteq> []" and "\<forall>c \<in> set t. F c = p \<or> matchFree p (F c)"
    and "\<forall>c \<in> set t. G c = (if F c = p then r else F c)"
  shows "replaceAll p r (concat (map F t)) = concat (map G t)"
  using assms(2,3)
proof (induction t)
  case Nil
  then show ?case by simp
next
  case (Cons c cs)
  then have ih: "replaceAll p r (concat (map F cs)) = concat (map G cs)"
    by simp
  from Cons.prems have "F c = p \<or> matchFree p (F c)" "G c = (if F c = p then r else F c)"
    by simp_all
  then show ?case
    using assms(1) ih by (auto simp: replaceAll_here replaceAll_matchFree)
qed

lemma matchBetween_found:
  assumes "opn \<noteq> []" and "cls \<noteq> []" and "matchFree opn a" and "matchFree cls m"
  shows "matchBetween opn cls (a @ opn @ m @ cls @ b) = Some m"
proof -
  have "indexOf (a @ opn @ m @ cls @ b) opn = Some (length a)"
    using assms(1,3) by (simp add: indexOf_matchFree indexOf_here)
  moreover have "indexOf (m @ cls @ b) cls = Some (length m)"
    using assms(2,4) by (simp add: indexOf_matchFree indexOf_here)
  ultimately show ?thesis
    by (simp add: matchBetween_def)
qed

subsection \<open>Escaping and unescaping XML text\<close>

lemma escapeXML_entities: "escapeXML t = concat (map xmlEntity t)"
proof -
  let ?g1 = "\<lambda>c. if c = 0x26 then ascii ''&amp;'' else [c :: byte]"
  let ?g2 = "\<lambda>c. if c = 0x26 then ascii ''&amp;'' else if c = 0x3C then ascii ''&lt;''
                 else [c :: byte]"
  let ?g3 = "\<lambda>c. if c = 0x26 then ascii ''&amp;'' else if c = 0x3C then ascii ''&lt;''
                 else if c = 0x3E then ascii ''&gt;'' else [c :: byte]"
  let ?g4 = "\<lambda>c. if c = 0x26 then ascii ''&amp;'' else if c = 0x3C then ascii ''&lt;''
                 else if c = 0x3E then ascii ''&gt;'' else if c = 0x22 then ascii ''&quot;''
                 else [c :: byte]"
  have "replaceAll (ascii ''&'') (ascii ''&amp;'') (concat (map (\<lambda>c. [c]) t)) = concat (map ?g1 t)"
    by (rule replaceAll_pieces) (auto simp: ascii_def)
  then have 1: "replaceAll (ascii ''&'') (ascii ''&amp;'') t = concat (map ?g1 t)"
    by simp
  have 2: "replaceAll (ascii ''<'') (ascii ''&lt;'') (concat (map ?g1 t)) = concat (map ?g2 t)"
    by (rule replaceAll_pieces) (auto simp: ascii_def)
  have 3: "replaceAll (ascii ''>'') (ascii ''&gt;'') (concat (map ?g2 t)) = concat (map ?g3 t)"
    by (rule replaceAll_pieces) (auto simp: ascii_def)
  have 4: "replaceAll [0x22] (ascii ''&quot;'') (concat (map ?g3 t)) = concat (map ?g4 t)"
    by (rule replaceAll_pieces) (auto simp: ascii_def)
  have 5: "replaceAll (ascii [CHR 0x27]) (ascii ''&apos;'') (concat (map ?g4 t)) =
             concat (map xmlEntity t)"
    by (rule replaceAll_pieces) (auto simp: ascii_def xmlEntity_def)
  show ?thesis
    unfolding escapeXML_def 1 2 3 4 5 ..
qed

lemma unescapeXML_entities:
  assumes "0x26 \<notin> set t"
  shows "unescapeXML (concat (map xmlEntity t)) = t"
proof -
  let ?g1 = "\<lambda>c. if c = 0x3E then ascii ''&gt;'' else if c = 0x22 then ascii ''&quot;''
                 else if c = 0x27 then ascii ''&apos;'' else [c :: byte]"
  let ?g2 = "\<lambda>c. if c = 0x22 then ascii ''&quot;''
                 else if c = 0x27 then ascii ''&apos;'' else [c :: byte]"
  let ?g3 = "\<lambda>c. if c = 0x27 then ascii ''&apos;'' else [c :: byte]"
  have 1: "replaceAll (ascii ''&amp;'') (ascii ''&'') (concat (map xmlEntity t)) =
             concat (map xmlEntity t)"
    using assms by (intro replaceAll_pieces) (auto simp: ascii_def xmlEntity_def)
  have 2: "replaceAll (ascii ''&lt;'') (ascii ''<'') (concat (map xmlEntity t)) =
             concat (map ?g1 t)"
    using assms by (intro replaceAll_pieces) (auto simp: ascii_def xmlEntity_def)
  have 3: "replaceAll (ascii ''&gt;'') (ascii ''>'') (concat (map ?g1 t)) = concat (map ?g2 t)"
    using assms by (intro replaceAll_pieces) (auto simp: ascii_def)
  have 4: "replaceAll (ascii ''&quot;'') [0x22] (concat (map ?g2 t)) = concat (map ?g3 t)"
    using assms by (intro replaceAll_pieces) (auto simp: ascii_def)
  have 5: "replaceAll (ascii ''&apos;'') (ascii [CHR 0x27]) (concat (map ?g3 t)) =
             concat (map (\<lambda>c. [c]) t)"
    using assms by (intro replaceAll_pieces) (auto simp: ascii_def)
  show ?thesis
    unfolding unescapeXML_def 1 2 3 4 5 by simp
qed

lemma unescapeXML_escapeXML: "0x26 \<notin> set t \<Longrightarrow> unescapeXML (escapeXML t) = t"
  by (simp add: escapeXML_entities unescapeXML_entities)

lemma xmlEntity_no_tag: "0x3C \<notin> set (concat (map xmlEntity t))"
  by (induction t) (auto simp: xmlEntity_def ascii_def)

lemma escapeXML_matchFree: "matchFree (0x3C # p) (escapeXML t)"
  unfolding escapeXML_entities using xmlEntity_no_tag by (rule matchFree_no_head)

subsection \<open>Text that decodes to itself\<close>

lemma utf8_conts_le: "utf8_conts n lo hi bs \<le> length bs"
  by (induction n lo hi bs rule: utf8_conts.induct) auto

lemma utf8_conts_le_n: "utf8_conts n lo hi bs \<le> n"
  by (induction n lo hi bs rule: utf8_conts.induct) auto

lemma utf8_conts_append:
  "utf8_conts n lo hi bs = n \<Longrightarrow> utf8_conts n lo hi (bs @ t) = n"
  by (induction n lo hi bs rule: utf8_conts.induct) (auto split: if_splits)

lemma utf8_conts_high:
  "utf8_conts n lo hi bs = n \<Longrightarrow> 0x80 \<le> lo \<Longrightarrow> \<forall>c \<in> set (take n bs). 0x80 \<le> c"
  by (induction n lo hi bs rule: utf8_conts.induct) (auto split: if_splits)

lemma utf8_need_lo: "utf8_need b = Some (n, lo, hi) \<Longrightarrow> 0x80 \<le> lo"
  by (auto simp: utf8_need_def split: if_splits)

lemma utf8_need_replacement: "utf8_need 0xEF = Some (2, 0x80, 0xBF)"
  by (simp add: utf8_need_def)

lemma utf8_conts_replacement: "utf8_conts 2 0x80 0xBF (0xBF # 0xBD # r) = 2"
proof -
  have "utf8_conts (Suc (Suc 0)) 0x80 0xBF (0xBF # 0xBD # r) = Suc (Suc 0)"
    by simp
  moreover have "Suc (Suc 0) = 2"
    by simp
  ultimately show ?thesis
    by (simp only:)
qed

text \<open>
  The three cases of the decoder on a text that decodes to itself: an ASCII byte, or a
  lead byte with all its continuation bytes.
\<close>

lemma wellFormed_cases:
  assumes "wellFormed (c # cs)"
  obtains "c < 0x80" "wellFormed cs"
  | n lo hi where "\<not> c < 0x80" "utf8_need c = Some (n, lo, hi)" "utf8_conts n lo hi cs = n"
      "n \<le> length cs" "wellFormed (drop n cs)"
proof (cases "c < 0x80")
  case True
  with assms that(1) show ?thesis
    by (simp add: wellFormed_def)
next
  case False
  show ?thesis
  proof (cases "utf8_need c")
    case None
    with False assms have "c = 0xEF"
      by (simp add: wellFormed_def replacement_def)
    with None show ?thesis
      by (simp add: utf8_need_replacement)
  next
    case (Some t)
    then obtain n lo hi where t: "utf8_need c = Some (n, lo, hi)"
      by (cases t) auto
    show ?thesis
    proof (cases "utf8_conts n lo hi cs = n")
      case True
      then have len: "n \<le> length cs"
        using utf8_conts_le [of n lo hi cs] by simp
      from assms False t True have "take n cs @ toString_utf8 (drop n cs) = cs"
        by (simp add: wellFormed_def)
      then have "take n cs @ toString_utf8 (drop n cs) = take n cs @ drop n cs"
        by simp
      then have "wellFormed (drop n cs)"
        unfolding wellFormed_def by (simp only: same_append_eq)
      with False t True len that(2) show ?thesis
        by blast
    next
      case ne: False
      with assms False t
      have eq: "replacement @ toString_utf8 (drop (utf8_conts n lo hi cs) cs) = c # cs"
        by (simp add: wellFormed_def)
      then have c: "c = 0xEF"
        by (simp add: replacement_def)
      with t have n: "n = 2" "lo = 0x80" "hi = 0xBF"
        by (simp_all add: utf8_need_replacement)
      from eq have "cs = 0xBF # 0xBD # toString_utf8 (drop (utf8_conts n lo hi cs) cs)"
        by (simp add: replacement_def)
      then obtain r where "cs = 0xBF # 0xBD # r" ..
      then have "utf8_conts n lo hi cs = n"
        by (simp only: n utf8_conts_replacement)
      with ne show ?thesis
        by simp
    qed
  qed
qed

lemma wellFormed_Nil: "wellFormed []"
  by (simp add: wellFormed_def)

lemma wellFormed_ascii: "is_ascii s \<Longrightarrow> wellFormed s"
  by (simp add: wellFormed_def toString_utf8_ascii)

lemma toString_utf8_append:
  "wellFormed a \<Longrightarrow> toString_utf8 (a @ b) = a @ toString_utf8 b"
proof (induction a rule: length_induct)
  case (1 a)
  show ?case
  proof (cases a)
    case Nil
    then show ?thesis by simp
  next
    case (Cons c cs)
    from 1(2) [unfolded Cons] show ?thesis
    proof (cases rule: wellFormed_cases)
      case 1
      then show ?thesis
        using "1.IH" Cons by simp
    next
      case (2 n lo hi)
      have "toString_utf8 (drop n cs @ b) = drop n cs @ toString_utf8 b"
        using "1.IH" Cons 2(5) by simp
      moreover have "utf8_conts n lo hi (cs @ b) = n"
        using 2(3) by (rule utf8_conts_append)
      ultimately show ?thesis
        using 2(1,2,4) Cons by simp
    qed
  qed
qed

lemma wellFormed_append: "wellFormed a \<Longrightarrow> wellFormed b \<Longrightarrow> wellFormed (a @ b)"
  by (simp add: wellFormed_def toString_utf8_append)

lemma is_ascii_xmlEntity: "c < 0x80 \<Longrightarrow> is_ascii (xmlEntity c)"
  by (simp add: xmlEntity_def is_ascii_def ascii_def)

lemma xmlEntity_high: "\<not> c < 0x80 \<Longrightarrow> xmlEntity c = [c]"
  by (auto simp: xmlEntity_def)

lemma xmlEntity_high_list: "\<forall>c \<in> set s. 0x80 \<le> c \<Longrightarrow> concat (map xmlEntity s) = s"
  by (induction s) (simp_all add: xmlEntity_high not_less)

lemma wellFormed_entities: "wellFormed t \<Longrightarrow> wellFormed (concat (map xmlEntity t))"
proof (induction t rule: length_induct)
  case (1 t)
  show ?case
  proof (cases t)
    case Nil
    then show ?thesis by (simp add: wellFormed_Nil)
  next
    case (Cons c cs)
    from 1(2) [unfolded Cons] show ?thesis
    proof (cases rule: wellFormed_cases)
      case 1
      then have "wellFormed (concat (map xmlEntity cs))"
        using "1.IH" Cons by simp
      with 1(1) show ?thesis
        unfolding Cons by (simp add: wellFormed_append wellFormed_ascii is_ascii_xmlEntity)
    next
      case (2 n lo hi)
      let ?Y = "concat (map xmlEntity (drop n cs))"
      have y: "wellFormed ?Y"
        using "1.IH" Cons 2(5) by simp
      have "\<forall>c \<in> set (take n cs). 0x80 \<le> c"
        using 2(3) utf8_need_lo [OF 2(2)] by (rule utf8_conts_high)
      then have "concat (map xmlEntity (take n cs)) = take n cs"
        by (rule xmlEntity_high_list)
      then have "concat (map xmlEntity (take n cs @ drop n cs)) = take n cs @ ?Y"
        by (simp only: map_append concat_append)
      then have e: "concat (map xmlEntity (c # cs)) = c # take n cs @ ?Y"
        using 2(1) by (simp add: xmlEntity_high)
      have "utf8_conts n lo hi (take n cs) = n"
        using 2(3,4)
        by (induction n lo hi cs rule: utf8_conts.induct) (auto split: if_splits)
      then have "utf8_conts n lo hi (take n cs @ ?Y) = n"
        by (rule utf8_conts_append)
      then have "toString_utf8 (c # take n cs @ ?Y) = c # take n cs @ toString_utf8 ?Y"
        using 2(1,2,4) by simp
      with y show ?thesis
        unfolding Cons e by (simp add: wellFormed_def)
    qed
  qed
qed

lemma wellFormed_escapeXML: "wellFormed t \<Longrightarrow> wellFormed (escapeXML t)"
  by (simp add: escapeXML_entities wellFormed_entities)

subsection \<open>The XMP document of a record\<close>

lemma escapeXML_val_Inr:
  "escapeXML_val v = Inr x \<Longrightarrow> \<exists>s. v = Some (JStr s) \<and> x = escapeXML s"
  by (auto simp: escapeXML_val_def split: option.splits jsval.splits)

lemma optionalElement_Inr:
  "optionalElement name v = Inr x \<Longrightarrow>
     x = [] \<or> (\<exists>s. v = Some (JStr s) \<and> x = element name (escapeXML s))"
  by (auto simp: optionalElement_def dest: escapeXML_val_Inr split: if_splits sum.splits)

lemma wellFormedFields_string:
  assumes "wellFormedFields R" and "name \<in> set xmpFields"
    and "get_prop R (ascii name) = Some (JStr s)"
  shows "wellFormed s"
  using assms by (auto simp: wellFormedFields_def list_all_iff)

lemma metadataOpen_head: "metadataOpen = 0x3C # ascii ''aicontag:metadata>''"
  by (simp add: metadataOpen_def AI_XMP_PREFIX_def ascii_def)

lemma metadataClose_head: "metadataClose = 0x3C # ascii ''/aicontag:metadata>''"
  by (simp add: metadataClose_def AI_XMP_PREFIX_def ascii_def)

lemma element_metadata: "element ''metadata'' t = metadataOpen @ t @ metadataClose"
  by (simp add: element_def metadataOpen_def metadataClose_def ascii_def)

lemma plainPiece_Nil: "plainPiece []"
  by (simp add: plainPiece_def wellFormed_Nil)

lemma plainPiece_append: "plainPiece x \<Longrightarrow> plainPiece y \<Longrightarrow> plainPiece (x @ y)"
  by (simp add: plainPiece_def wellFormed_append matchFree_append)

lemma plainPiece_escapeXML: "wellFormed s \<Longrightarrow> plainPiece (escapeXML s)"
  by (simp add: plainPiece_def wellFormed_escapeXML metadataOpen_head escapeXML_matchFree)

lemma plainPiece_indent: "plainPiece indent" "plainPiece [0x0A]"
  by (simp_all add: plainPiece_def wellFormed_def indent_def metadataOpen_head ascii_def)

lemma plainPiece_xmpHead: "plainPiece xmpHead"
proof -
  have "is_ascii xmpHead"
    by (simp add: xmpHead_def AI_XMP_PREFIX_def AI_XMP_NAMESPACE_def is_ascii_def ascii_def)
  moreover have "matchFree metadataOpen xmpHead"
    by (simp add: xmpHead_def AI_XMP_PREFIX_def AI_XMP_NAMESPACE_def metadataOpen_head ascii_def)
  ultimately show ?thesis
    by (simp add: plainPiece_def wellFormed_ascii)
qed

lemma plainPiece_tags:
  assumes "name \<in> set xmpFields"
  shows "plainPiece (ascii ''<'' @ AI_XMP_PREFIX @ ascii '':'' @ ascii name @ ascii ''>'')"
    and "plainPiece (ascii ''</'' @ AI_XMP_PREFIX @ ascii '':'' @ ascii name @ ascii ''>'')"
  using assms
  by (auto simp: xmpFields_def plainPiece_def wellFormed_def AI_XMP_PREFIX_def
      metadataOpen_head ascii_def)

lemma plainPiece_element:
  assumes "name \<in> set xmpFields" and "wellFormed s"
  shows "plainPiece (element name (escapeXML s))"
proof -
  have "plainPiece
          ((ascii ''<'' @ AI_XMP_PREFIX @ ascii '':'' @ ascii name @ ascii ''>'') @
           escapeXML s @
           (ascii ''</'' @ AI_XMP_PREFIX @ ascii '':'' @ ascii name @ ascii ''>''))"
    by (rule plainPiece_append [OF plainPiece_tags(1) [OF assms(1)]
          plainPiece_append [OF plainPiece_escapeXML [OF assms(2)] plainPiece_tags(2) [OF assms(1)]]])
  then show ?thesis
    by (simp add: element_def)
qed

lemma plainPiece_required:
  assumes "wellFormedFields R" and "name \<in> set xmpFields"
    and "escapeXML_val (get_prop R (ascii name)) = Inr x"
  shows "plainPiece (element name x)"
proof -
  from assms(3) obtain s where "get_prop R (ascii name) = Some (JStr s)" "x = escapeXML s"
    by (auto dest: escapeXML_val_Inr)
  with assms(1,2) show ?thesis
    using plainPiece_element wellFormedFields_string by blast
qed

lemma plainPiece_optional:
  assumes "wellFormedFields R" and "name \<in> set xmpFields"
    and "optionalElement name (get_prop R (ascii name)) = Inr x"
  shows "plainPiece x"
proof -
  from optionalElement_Inr [OF assms(3)] show ?thesis
  proof
    assume "x = []"
    then show ?thesis
      by (simp add: plainPiece_Nil)
  next
    assume "\<exists>s. get_prop R (ascii name) = Some (JStr s) \<and> x = element name (escapeXML s)"
    with assms(1,2) show ?thesis
      using plainPiece_element wellFormedFields_string by blast
  qed
qed

lemma createXMPData_shape:
  assumes "createXMPData L R options = Inr X" and "wellFormedFields R"
  shows "\<exists>A B. X = A @ metadataOpen @ escapeXML (JSON_stringify L R) @ metadataClose @ B \<and>
               plainPiece A"
proof -
  from assms(1) obtain ct og cr au de li where
    f: "escapeXML_val (get_prop R (ascii ''contentType'')) = Inr ct"
       "escapeXML_val (get_prop R (ascii ''origin'')) = Inr og"
       "escapeXML_val (get_prop R (ascii ''created'')) = Inr cr"
       "optionalElement ''author'' (get_prop R (ascii ''author'')) = Inr au"
       "optionalElement ''description'' (get_prop R (ascii ''description'')) = Inr de"
       "optionalElement ''license'' (get_prop R (ascii ''license'')) = Inr li"
    and x: "X = (xmpHead @
               indent @ element ''contentType'' ct @ [0x0A] @
               indent @ element ''origin'' og @ [0x0A] @
               indent @ element ''created'' cr @ [0x0A] @
               indent @ au @ [0x0A] @
               indent @ de @ [0x0A] @
               indent @ li @ [0x0A] @
               indent) @ metadataOpen @ escapeXML (JSON_stringify L R) @ metadataClose @
               ([0x0A] @ indent @
               (if includeChecksum options
                then element ''checksum'' (sha256_hex L (JSON_stringify L R))
                else []) @ [0x0A] @
               xmpTail)"
    unfolding createXMPData_def element_metadata by (auto split: sum.splits)
  have n: "''contentType'' \<in> set xmpFields" "''origin'' \<in> set xmpFields"
    "''created'' \<in> set xmpFields" "''author'' \<in> set xmpFields"
    "''description'' \<in> set xmpFields" "''license'' \<in> set xmpFields"
    by (simp_all add: xmpFields_def)
  have "plainPiece (xmpHead @
               indent @ element ''contentType'' ct @ [0x0A] @
               indent @ element ''origin'' og @ [0x0A] @
               indent @ element ''created'' cr @ [0x0A] @
               indent @ au @ [0x0A] @
               indent @ de @ [0x0A] @
               indent @ li @ [0x0A] @
               indent)"
    using plainPiece_xmpHead plainPiece_indent
      plainPiece_required [OF assms(2) n(1) f(1)] plainPiece_required [OF assms(2) n(2) f(2)]
      plainPiece_required [OF assms(2) n(3) f(3)] plainPiece_optional [OF assms(2) n(4) f(4)]
      plainPiece_optional [OF assms(2) n(5) f(5)] plainPiece_optional [OF assms(2) n(6) f(6)]
    apply (intro plainPiece_append)
    apply assumption+
    done
  with x show ?thesis
    by blast
qed

lemma parseXMPData_created:
  assumes "createXMPData L R options = Inr X" and "wellFormedFields R"
    and "wellFormed (JSON_stringify L R)" and "0x26 \<notin> set (JSON_stringify L R)"
    and "JSON_parse L (JSON_stringify L R) = Some R"
  shows "parseXMPData L (X @ after) = R"
proof -
  let ?J = "JSON_stringify L R"
  from createXMPData_shape [OF assms(1,2)] obtain A B
    where x: "X = A @ metadataOpen @ escapeXML ?J @ metadataClose @ B" and a: "plainPiece A"
    by blast
  have o: "metadataOpen \<noteq> []" "metadataClose \<noteq> []"
    by (simp_all add: metadataOpen_head metadataClose_head)
  have "wellFormed metadataOpen" "wellFormed metadataClose"
    by (simp_all add: wellFormed_def metadataOpen_head metadataClose_head ascii_def)
  then have "wellFormed (A @ metadataOpen @ escapeXML ?J @ metadataClose)"
    using a assms(3) by (simp add: plainPiece_def wellFormed_append wellFormed_escapeXML)
  then have "toString_utf8 ((A @ metadataOpen @ escapeXML ?J @ metadataClose) @ B @ after) =
               (A @ metadataOpen @ escapeXML ?J @ metadataClose) @ toString_utf8 (B @ after)"
    by (rule toString_utf8_append)
  then have t: "toString_utf8 (X @ after) =
               A @ metadataOpen @ escapeXML ?J @ metadataClose @ toString_utf8 (B @ after)"
    by (simp add: x)
  have "matchFree metadataClose (escapeXML ?J)"
    unfolding metadataClose_head by (rule escapeXML_matchFree)
  with a o have "matchBetween metadataOpen metadataClose (toString_utf8 (X @ after)) =
                   Some (escapeXML ?J)"
    unfolding t by (intro matchBetween_found) (simp_all add: plainPiece_def)
  then show ?thesis
    using assms(4,5)
    by (simp add: parseXMPData_def metadataOpen_def [symmetric] metadataClose_def [symmetric]
        unescapeXML_escapeXML)
qed

subsection \<open>The record in a JPEG file\<close>

lemma writeUInt16BE_APP1: "writeUInt16BE JPEG_APP1 = Inr [0xFF, 0xE1]"
  by (simp add: writeUInt16BE_def JPEG_APP1_def)

lemma length_xmpIdentifier: "length xmpIdentifier = 29"
  by (simp add: xmpIdentifier_def)

lemma createAPP1Segment_XMP:
  assumes "createAPP1Segment X ''XMP'' = Inr seg"
  shows "\<exists>hi lo. seg = [0xFF, 0xE1, hi, lo] @ xmpIdentifier @ X \<and> markerSegment seg"
proof -
  let ?v = "length X + 31"
  have t: "2 + 2 + length xmpIdentifier + length X - 2 = ?v"
    by (simp add: length_xmpIdentifier)
  have "createAPP1Segment X ''XMP'' =
          (case writeUInt16BE ?v of
             Inl e \<Rightarrow> Inl e
           | Inr len \<Rightarrow> Inr ([0xFF, 0xE1] @ len @ xmpIdentifier @ X))"
    unfolding createAPP1Segment_def Let_def
    by (simp only: HOL.simp_thms if_True t writeUInt16BE_APP1 sum.case)
  with assms have v: "?v \<le> 0xFFFF"
    and seg: "seg = [0xFF, 0xE1, of_nat (?v div 256), of_nat ?v] @ xmpIdentifier @ X"
    by (auto simp: writeUInt16BE_def split: if_splits)
  define hi :: byte where "hi = of_nat (?v div 256)"
  define lo :: byte where "lo = of_nat ?v"
  from v have "?v div 256 < 256"
    by simp
  then have hi: "unat hi = ?v div 256"
    unfolding hi_def by (simp add: unat_of_nat)
  have lo: "unat lo = ?v mod 256"
    unfolding lo_def by (simp only: unat_of_nat) simp
  have "markerSegment ([0xFF, 0xE1, hi, lo] @ xmpIdentifier @ X)"
    unfolding markerSegment_def by (simp add: length_xmpIdentifier hi lo)
  with seg show ?thesis
    unfolding hi_def lo_def by blast
qed

lemma extractXMP_created:
  "extractXMPFromSegment ([0xFF, 0xE1, hi, lo] @ xmpIdentifier @ X) = Some X"
proof -
  have "toString_ascii xmpIdentifier = xmpIdentifier"
    by (simp add: toString_ascii_def xmpIdentifier_def ascii_def)
  then show ?thesis
    by (simp add: extractXMPFromSegment_def slice_buf_def slice_from_def length_xmpIdentifier)
qed

lemma isAPP1_created: "isAPP1Segment ([0xFF, 0xE1, hi, lo] @ rest)"
  by (simp add: isAPP1Segment_def readUInt16BE_def JPEG_APP1_def)

lemma SOI_not_APP1: "\<not> isAPP1Segment [0xFF, 0xD8]"
  by (simp add: isAPP1Segment_def readUInt16BE_def JPEG_APP1_def)

lemma firstMetadata_created:
  assumes "parseXMPData L X = R" and "truthy R"
  shows "firstMetadata L ([0xFF, 0xD8] # ([0xFF, 0xE1, hi, lo] @ xmpIdentifier @ X) # rest) = R"
proof -
  have "extractFromSegment L [0xFF, 0xD8] = JNull"
    using SOI_not_APP1 by (simp add: extractFromSegment_def)
  moreover have "extractFromSegment L ([0xFF, 0xE1, hi, lo] @ xmpIdentifier @ X) = R"
    using assms isAPP1_created [of hi lo "xmpIdentifier @ X"]
    unfolding extractFromSegment_def extractXMP_created by simp
  ultimately show ?thesis
    using assms(2) by simp
qed

lemma embedJPEG_structure:
  assumes pre: "list_all markerSegment pre"
    and tail: "tail = [] \<or> (\<exists>scan. tail = 0xFF # 0xDA # scan)"
    and fmt: "preferredFormat opts \<noteq> ascii ''exif''" "preferredFormat opts \<noteq> ascii ''both''"
    and e: "embedJPEGMetadata L opts ([0xFF, 0xD8] @ concat pre @ tail) R options = Inr E"
  shows "\<exists>X hi lo kept.
           createXMPData L R options = Inr X \<and>
           E = [0xFF, 0xD8] @ concat (([0xFF, 0xE1, hi, lo] @ xmpIdentifier @ X) # kept) @ tail \<and>
           list_all markerSegment (([0xFF, 0xE1, hi, lo] @ xmpIdentifier @ X) # kept)"
proof -
  let ?keep = "\<lambda>segment. \<not> (\<not> exif_preserveExisting opts \<and> isMetadataSegment segment)"
  have p: "parseJPEGSegments ([0xFF, 0xD8] @ concat pre @ tail) =
             Inr ([0xFF, 0xD8] # pre @ (if tail = [] then [] else [tail]))"
    using pre tail by (rule parseJPEGSegments_structure)
  from e obtain X seg where x: "createXMPData L R options = Inr X"
    and s: "createAPP1Segment X ''XMP'' = Inr seg"
    and out: "E = [0xFF, 0xD8] @ seg @
                concat (filter ?keep (pre @ (if tail = [] then [] else [tail])))"
    unfolding embedJPEGMetadata_def p using fmt by (auto split: sum.splits)
  have "filter ?keep (if tail = [] then [] else [tail]) = (if tail = [] then [] else [tail])"
    using tail SOS_not_metadata by auto
  then have "concat (filter ?keep (pre @ (if tail = [] then [] else [tail]))) =
               concat (filter ?keep pre) @ tail"
    by simp
  with out have out': "E = [0xFF, 0xD8] @ seg @ concat (filter ?keep pre) @ tail"
    by simp
  from createAPP1Segment_XMP [OF s] obtain hi lo
    where seg: "seg = [0xFF, 0xE1, hi, lo] @ xmpIdentifier @ X" and m: "markerSegment seg"
    by blast
  have "list_all markerSegment (seg # filter ?keep pre)"
    using m pre by (simp add: list_all_filter_mono)
  with x out' seg show ?thesis
    by (intro exI [of _ X] exI [of _ hi] exI [of _ lo] exI [of _ "filter ?keep pre"]) simp
qed

lemma EXIF_embed_Inr:
  assumes "EXIF_embedMetadata L opts C R options = Inr E"
  shows "validateMetadata R = Inr ()" and "embedJPEGMetadata L opts C R options = Inr E"
  using assms
  by (auto simp: EXIF_embedMetadata_def wrap_def Let_def split: sum.splits if_splits)

lemma EXIF_extract_embedded:
  assumes pre: "list_all markerSegment pre"
    and tail: "tail = [] \<or> (\<exists>scan. tail = 0xFF # 0xDA # scan)"
    and fmt: "preferredFormat opts \<noteq> ascii ''exif''" "preferredFormat opts \<noteq> ascii ''both''"
    and e: "EXIF_embedMetadata L opts ([0xFF, 0xD8] @ concat pre @ tail) R options = Inr E"
    and lf: "library_facts L R" and wf: "wellFormedFields R"
    and amp: "0x26 \<notin> set (JSON_stringify L R)"
  shows "EXIF_extractMetadata L E =
           wrap ''Failed to extract image metadata: '' (addVerification L R E)"
proof -
  from embedJPEG_structure [OF pre tail fmt EXIF_embed_Inr(2) [OF e]] obtain X hi lo kept
    where x: "createXMPData L R options = Inr X"
      and out: "E = [0xFF, 0xD8] @
                  concat (([0xFF, 0xE1, hi, lo] @ xmpIdentifier @ X) # kept) @ tail"
      and segs: "list_all markerSegment (([0xFF, 0xE1, hi, lo] @ xmpIdentifier @ X) # kept)"
    by blast
  have t: "truthy R"
    using EXIF_embed_Inr(1) [OF e] by (rule validated_truthy)
  from lf have "wellFormed (JSON_stringify L R)" "JSON_parse L (JSON_stringify L R) = Some R"
    by (simp_all add: library_facts_def wellFormed_def)
  then have "parseXMPData L (X @ []) = R"
    using x wf amp by (intro parseXMPData_created) simp_all
  then have r: "parseXMPData L X = R"
    by simp
  have "parseJPEGSegments E =
          Inr ([0xFF, 0xD8] # (([0xFF, 0xE1, hi, lo] @ xmpIdentifier @ X) # kept) @
               (if tail = [] then [] else [tail]))"
    unfolding out using segs tail by (rule parseJPEGSegments_structure)
  then have x: "extractJPEGMetadata L E = Inr R"
    using firstMetadata_created [OF r t] by (simp add: extractJPEGMetadata_def)
  have "detectImageFormat E = ''jpeg''"
    using detect_jpeg_structure [OF segs tail] unfolding out by simp
  with x t show ?thesis
    by (simp add: EXIF_extractMetadata_def)
qed

lemma EXIF_roundtrip:
  assumes pre: "list_all markerSegment pre"
    and tail: "tail = [] \<or> (\<exists>scan. tail = 0xFF # 0xDA # scan)"
    and fmt: "preferredFormat opts \<noteq> ascii ''exif''" "preferredFormat opts \<noteq> ascii ''both''"
    and e: "EXIF_embedMetadata L opts ([0xFF, 0xD8] @ concat pre @ tail) R options = Inr E"
    and lf: "library_facts L R" and wf: "wellFormedFields R"
    and amp: "0x26 \<notin> set (JSON_stringify L R)"
  shows "\<exists>m. EXIF_extractMetadata L E = Inr m \<and> addVerification L R E = Inr m \<and>
             (\<forall>k. k \<noteq> ascii ''_verified'' \<and> k \<noteq> ascii ''_signatureValid'' \<longrightarrow>
                  get_prop m k = get_prop R k)"
proof -
  have "truthy R" "typeof_object R"
    using EXIF_embed_Inr(1) [OF e] by (simp_all add: validated_truthy validated_object)
  from addVerification_object [OF this, of L E] obtain m
    where "addVerification L R E = Inr m"
      and "\<forall>k. k \<noteq> ascii ''_verified'' \<and> k \<noteq> ascii ''_signatureValid'' \<longrightarrow>
               get_prop m k = get_prop R k"
    by blast
  then show ?thesis
    using EXIF_extract_embedded [OF assms] by (simp add: wrap_def)
qed

subsection \<open>The example record in a JPEG file\<close>

lemma embed_jpeg0:
  "EXIF_embedMetadata lib0 exif_defaults ([0xFF, 0xD8] @ concat [app0] @ [0xFF, 0xDA, 1, 2, 3])
     record0 embed_defaults =
   Inr ([0xFF, 0xD8] @ xmpSegment0 @ app0 @ [0xFF, 0xDA, 1, 2, 3])"
proof -
  have m: "list_all markerSegment [app0]"
    by (simp add: markerSegment_app0)
  have p: "parseJPEGSegments ([0xFF, 0xD8] @ concat [app0] @ 0xFF # 0xDA # [1, 2, 3]) =
             Inr ([0xFF, 0xD8] # [app0] @ [0xFF # 0xDA # [1, 2, 3]])"
    using m by (rule parseJPEGSegments_SOS)
  have "detectImageFormat ([0xFF, 0xD8] @ concat [app0] @ 0xFF # 0xDA # [1, 2, 3]) = ''jpeg''"
    using m by (rule detect_jpeg_SOS)
  then show ?thesis
    using embedJPEG0 [OF p]
    by (simp add: EXIF_embedMetadata_def validate_record0 wrap_def)
qed

lemma wellFormedFields0: "wellFormedFields record0"
  by (simp add: wellFormedFields_def xmpFields_def record0_def wellFormed_def ascii_def)

lemma no_ampersand0: "0x26 \<notin> set (json_text record0)"
  by (simp add: json0) (simp add: ascii_def)

lemma addVerification_record0: "addVerification lib0 record0 buf = Inr record0"
  by (simp add: addVerification_def record0_def truthy_opt_def ascii_def)

text \<open>
  C2, as the code has it, for a record that passes validation and on which the library
  functions behave (the JSON text parses back to the record and is well-formed UTF-8
  below \<open>2 ^ 27\<close> bytes, the hash is a non-empty string of at most 64 ASCII
  characters). ID3 handler (version option 2.4, no private key), every audio buffer:
  embedding returns a file, extraction from that file returns a record, and the two
  records agree on every property other than \<open>checksum\<close>, \<open>_verified\<close> and
  \<open>_signatureValid\<close>; the \<open>checksum\<close> of the extracted record is the one of the
  checksum frame, the hash of the JSON text of the record, when a checksum was asked for,
  and the record's own otherwise. JPEG handler (XMP only, a file of well-formed segments
  with an optional Start-Of-Scan block, the strings of the record well-formed text and
  its JSON text without an ampersand): when embedding returns a file, extraction from
  that file returns the record as \<open>extractMetadata\<close> flags it, which agrees with the
  record on every property other than \<open>_verified\<close> and \<open>_signatureValid\<close>.
\<close>

theorem roundtrip_fields:
  assumes "validateMetadata R = Inr ()" and "library_facts L R"
  shows "(id3_version opts = ascii ''2.4'' \<and> privateKey options = None \<longrightarrow>
            (\<exists>T m. ID3_embedMetadata L opts C R options = Inr T \<and>
                   ID3_extractMetadata L T = Inr m \<and>
                   (\<forall>k. \<not> derivedName k \<longrightarrow> get_prop m k = get_prop R k) \<and>
                   get_prop m (ascii ''checksum'') =
                     (if includeChecksum options
                      then Some (JStr (sha256_hex L (JSON_stringify L R)))
                      else get_prop R (ascii ''checksum'')))) \<and>
         (list_all markerSegment pre \<and> (tail = [] \<or> (\<exists>scan. tail = 0xFF # 0xDA # scan)) \<and>
          preferredFormat xopts \<noteq> ascii ''exif'' \<and> preferredFormat xopts \<noteq> ascii ''both'' \<and>
          wellFormedFields R \<and> 0x26 \<notin> set (JSON_stringify L R) \<and>
          EXIF_embedMetadata L xopts ([0xFF, 0xD8] @ concat pre @ tail) R options = Inr E \<longrightarrow>
            (\<exists>m. EXIF_extractMetadata L E = Inr m \<and> addVerification L R E = Inr m \<and>
                 (\<forall>k. k \<noteq> ascii ''_verified'' \<and> k \<noteq> ascii ''_signatureValid'' \<longrightarrow>
                      get_prop m k = get_prop R k)))"
proof (intro conjI impI)
  assume "id3_version opts = ascii ''2.4'' \<and> privateKey options = None"
  then have "id3_version opts = ascii ''2.4''" "privateKey options = None"
    by simp_all
  from ID3_roundtrip [OF this assms, of C]
  show "\<exists>T m. ID3_embedMetadata L opts C R options = Inr T \<and>
               ID3_extractMetadata L T = Inr m \<and>
               (\<forall>k. \<not> derivedName k \<longrightarrow> get_prop m k = get_prop R k) \<and>
               get_prop m (ascii ''checksum'') =
                 (if includeChecksum options
                  then Some (JStr (sha256_hex L (JSON_stringify L R)))
                  else get_prop R (ascii ''checksum''))"
    by blast
next
  assume "list_all markerSegment pre \<and> (tail = [] \<or> (\<exists>scan. tail = 0xFF # 0xDA # scan)) \<and>
          preferredFormat xopts \<noteq> ascii ''exif'' \<and> preferredFormat xopts \<noteq> ascii ''both'' \<and>
          wellFormedFields R \<and> 0x26 \<notin> set (JSON_stringify L R) \<and>
          EXIF_embedMetadata L xopts ([0xFF, 0xD8] @ concat pre @ tail) R options = Inr E"
  then show "\<exists>m. EXIF_extractMetadata L E = Inr m \<and> addVerification L R E = Inr m \<and>
                 (\<forall>k. k \<noteq> ascii ''_verified'' \<and> k \<noteq> ascii ''_signatureValid'' \<longrightarrow>
                      get_prop m k = get_prop R k)"
    using EXIF_roundtrip [of pre tail xopts L R options E] assms(2) by blast
qed

theorem roundtrip_fields_witness:
  "ID3_embedMetadata lib0 id3_defaults [1, 2, 3] record0 embed_defaults = Inr (tag0 @ [1, 2, 3]) \<and>
   ID3_extractMetadata lib0 (tag0 @ [1, 2, 3]) = Inr extracted0 \<and>
   get_prop extracted0 (ascii ''contentType'') = get_prop record0 (ascii ''contentType'') \<and>
   get_prop extracted0 (ascii ''origin'') = get_prop record0 (ascii ''origin'') \<and>
   get_prop extracted0 (ascii ''created'') = get_prop record0 (ascii ''created'') \<and>
   get_prop extracted0 (ascii ''checksum'') = Some (JStr (sum_hex (json_text record0))) \<and>
   EXIF_embedMetadata lib0 exif_defaults ([0xFF, 0xD8] @ concat [app0] @ [0xFF, 0xDA, 1, 2, 3])
     record0 embed_defaults =
     Inr ([0xFF, 0xD8] @ xmpSegment0 @ app0 @ [0xFF, 0xDA, 1, 2, 3]) \<and>
   EXIF_extractMetadata lib0 ([0xFF, 0xD8] @ xmpSegment0 @ app0 @ [0xFF, 0xDA, 1, 2, 3]) =
     Inr record0"
proof -
  let ?E = "[0xFF, 0xD8] @ xmpSegment0 @ app0 @ [0xFF, 0xDA, 1, 2, 3]"
  have o: "id3_version id3_defaults = ascii ''2.4''" "privateKey embed_defaults = None"
    by (simp_all add: id3_defaults_def embed_defaults_def)
  have i: "includeChecksum embed_defaults"
    by (simp add: embed_defaults_def)
  have l: "JSON_stringify lib0 = json_text" "sha256_hex lib0 = sum_hex"
    by (simp_all add: lib0_def)
  have n: "\<not> derivedName (ascii ''contentType'')" "\<not> derivedName (ascii ''origin'')"
    "\<not> derivedName (ascii ''created'')"
    by (simp_all add: derivedName_def ascii_def)
  have j: "list_all markerSegment [app0]"
    "preferredFormat exif_defaults \<noteq> ascii ''exif''"
    "preferredFormat exif_defaults \<noteq> ascii ''both''"
    by (simp_all add: markerSegment_app0 exif_defaults_def ascii_def)
  note w = roundtrip_fields [OF validate_record0 library_facts0,
      of id3_defaults embed_defaults "[1, 2, 3]" "[app0]" "[0xFF, 0xDA, 1, 2, 3]"
      exif_defaults ?E]
  from w obtain T m
    where "ID3_embedMetadata lib0 id3_defaults [1, 2, 3] record0 embed_defaults = Inr T"
      and "ID3_extractMetadata lib0 T = Inr m"
      and k: "\<forall>k. \<not> derivedName k \<longrightarrow> get_prop m k = get_prop record0 k"
      and c: "get_prop m (ascii ''checksum'') = Some (JStr (sum_hex (json_text record0)))"
    unfolding l using o i by auto
  then have "T = tag0 @ [1, 2, 3]" and m: "m = extracted0"
    using embed0 extract0 [of "[1, 2, 3]"] by simp_all
  from w obtain m' where "EXIF_extractMetadata lib0 ?E = Inr m'"
    and "addVerification lib0 record0 ?E = Inr m'"
    using j wellFormedFields0 no_ampersand0 embed_jpeg0 unfolding l by auto
  then have "EXIF_extractMetadata lib0 ?E = Inr record0"
    by (simp add: addVerification_record0)
  then show ?thesis
    using embed0 extract0 [of "[1, 2, 3]"] k c n m embed_jpeg0 by simp
qed

subsection \<open>Ownership of a frame\<close>

lemma nullIndex_Some:
  "nullIndex d = Some i \<Longrightarrow> i < length d \<and> d ! i = 0 \<and> 0 \<notin> set (take i d)"
proof (induction d arbitrary: i)
  case Nil
  then show ?case by simp
next
  case (Cons b bs)
  show ?case
  proof (cases "b = 0")
    case True
    with Cons.prems show ?thesis by simp
  next
    case False
    with Cons.prems obtain j where j: "nullIndex bs = Some j" "i = Suc j"
      by auto
    from Cons.IH [OF j(1)] False j(2) show ?thesis
      by simp
  qed
qed

lemma nullIndex_split: "nullIndex d = Some i \<Longrightarrow> d = take i d @ 0 # drop (Suc i) d"
  using nullIndex_Some [of d i] id_take_nth_drop [of i d] by auto

lemma nullIndex_token: "0 \<notin> set t \<Longrightarrow> nullIndex (t @ 0 # r) = Some (length t)"
  by (induction t) auto

lemma startsWith_iff: "startsWith d p \<longleftrightarrow> (\<exists>r. d = p @ r)"
proof
  assume "startsWith d p"
  then have "d = p @ drop (length p) d"
    by (metis startsWith_def append_take_drop_id)
  then show "\<exists>r. d = p @ r" ..
next
  assume "\<exists>r. d = p @ r"
  then show "startsWith d p"
    by (auto simp: startsWith_def)
qed

lemma token_iff:
  assumes "is_ascii t" and "0 \<notin> set t" and "t \<noteq> []"
  shows "(case nullIndex d of None \<Rightarrow> [] | Some i \<Rightarrow> toString_utf8 (slice_buf d 0 i)) = t \<longleftrightarrow>
         startsWith d (t @ [0])"
proof
  assume l: "(case nullIndex d of None \<Rightarrow> [] | Some i \<Rightarrow> toString_utf8 (slice_buf d 0 i)) = t"
  with assms(3) obtain i where i: "nullIndex d = Some i" and "toString_utf8 (take i d) = t"
    by (auto simp: slice_buf_def split: option.splits)
  with assms(1) have "take i d = t"
    by (simp add: toString_utf8_eq_ascii)
  with nullIndex_split [OF i] have "d = (t @ [0]) @ drop (Suc i) d"
    by simp
  then show "startsWith d (t @ [0])"
    unfolding startsWith_iff ..
next
  assume "startsWith d (t @ [0])"
  then obtain r where "d = t @ 0 # r"
    by (auto simp: startsWith_iff)
  then show "(case nullIndex d of None \<Rightarrow> [] | Some i \<Rightarrow> toString_utf8 (slice_buf d 0 i)) = t"
    using assms(1,2) by (simp add: nullIndex_token slice_buf_def toString_utf8_ascii)
qed

lemma description_parseTextFrame:
  "fst (parseTextFrame data) =
     (case nullIndex (drop 1 data) of
        None \<Rightarrow> []
      | Some i \<Rightarrow> toString_utf8 (slice_buf (drop 1 data) 0 i))"
  by (simp add: parseTextFrame_def slice_from_def split: option.splits)

lemma identifier_parsePrivateFrame:
  "fst (parsePrivateFrame data) =
     (case nullIndex data of None \<Rightarrow> [] | Some i \<Rightarrow> toString_utf8 (slice_buf data 0 i))"
  by (simp add: parsePrivateFrame_def split: option.splits)

lemma tokens:
  "is_ascii (ascii ''AI_METADATA'')" "0 \<notin> set (ascii ''AI_METADATA'')" "ascii ''AI_METADATA'' \<noteq> []"
  "is_ascii (ascii ''AI_CHECKSUM'')" "0 \<notin> set (ascii ''AI_CHECKSUM'')" "ascii ''AI_CHECKSUM'' \<noteq> []"
  "is_ascii (ascii ''AI_SIGNATURE'')" "0 \<notin> set (ascii ''AI_SIGNATURE'')" "ascii ''AI_SIGNATURE'' \<noteq> []"
  by (simp_all add: is_ascii_def ascii_def)

text \<open>
  The test of the code agrees with ownership as the specification words it, on every
  frame.
\<close>

lemma isAIMetadataFrame_iff: "isAIMetadataFrame fr \<longleftrightarrow> provenanceOwned fr"
proof -
  have d: "ascii ''TXXX'' \<noteq> ascii ''PRIV''"
    by (simp add: ascii_def)
  show ?thesis
    unfolding isAIMetadataFrame_def provenanceOwned_def Let_def AI_METADATA_FRAME_def
      AI_SIGNATURE_FRAME_def description_parseTextFrame identifier_parsePrivateFrame
      token_iff [OF tokens(1,2,3)] token_iff [OF tokens(4,5,6)] token_iff [OF tokens(7,8,9)]
    using d by auto
qed

lemma isAIMetadataFrame_eq: "isAIMetadataFrame = provenanceOwned"
  by (rule ext) (rule isAIMetadataFrame_iff)

lemma provenanceOwned_reparsed: "provenanceOwned (reparsed fr) = provenanceOwned fr"
  by (simp add: provenanceOwned_def reparsed_def)

lemma length_frameBytes: "plainFrame fr \<Longrightarrow> length (frameBytes fr) = 10 + length (frame_data fr)"
  by (simp add: frameBytes_plain) (simp add: plainFrame_def)

text \<open>
  Removal on a tag that \<open>_buildID3Tag\<close> built under version 2.4 from frames it carries
  without loss: the owned frames are dropped, the others are kept in their order, and the
  bytes after the tag follow.
\<close>

lemma ID3_remove_owned:
  assumes v: "id3_version opts = ascii ''2.4''"
    and p: "list_all plainFrame frs"
    and n: "sum_list (map length (map frameBytes frs)) + 1024 < 2 ^ 28"
  shows "ID3_removeMetadata opts (builtTag frs @ payload) =
           Inr (if list_all provenanceOwned frs then payload
                else builtTag (filter (\<lambda>fr. \<not> provenanceOwned fr) frs) @ payload)"
proof -
  let ?buf = "builtTag frs @ payload"
  let ?kept = "filter (\<lambda>fr. \<not> provenanceOwned fr) frs"
  have h: "hasID3 (parseID3Header ?buf)" "tagSize (parseID3Header ?buf) = length (builtTag frs)"
    using builtTag_header [OF n, of payload] by simp_all
  have f: "parseID3Frames ?buf (parseID3Header ?buf) = Inr (map reparsed frs)"
    using p n by (rule builtTag_frames)
  have k: "filter (\<lambda>fr. \<not> isAIMetadataFrame fr) (map reparsed frs) = map reparsed ?kept"
    by (simp add: filter_map comp_def isAIMetadataFrame_eq provenanceOwned_reparsed)
  have a: "list_all isAIMetadataFrame (map reparsed frs) \<longleftrightarrow> list_all provenanceOwned frs"
    by (simp add: list_all_iff isAIMetadataFrame_eq provenanceOwned_reparsed)
  have d: "drop (tagSize (parseID3Header ?buf)) ?buf = payload"
    by (simp add: h)
  note c = ID3_removeMetadata_cases [where buf = ?buf and opts = opts and frames = "map reparsed frs"]
  show ?thesis
  proof (cases "list_all provenanceOwned frs")
    case True
    with c h f a d show ?thesis
      by simp
  next
    case False
    with c h f a have "ID3_removeMetadata opts ?buf =
        wrap ''Failed to remove ID3 metadata: ''
          (map_sum id (\<lambda>tag. tag @ drop (tagSize (parseID3Header ?buf)) ?buf)
             (buildID3Tag opts (filter (\<lambda>fr. \<not> isAIMetadataFrame fr) (map reparsed frs))))"
      by blast
    with False show ?thesis
      unfolding k d by (simp add: buildID3Tag_builtTag [OF v] wrap_def)
  qed
qed

lemma emptyTag_parsed:
  "hasID3 (parseID3Header (emptyTag @ rest))" "tagSize (parseID3Header (emptyTag @ rest)) = 10"
  "parseID3Frames (emptyTag @ rest) (parseID3Header (emptyTag @ rest)) = Inr []"
proof -
  have h: "parseID3Header (emptyTag @ rest) =
     \<lparr>hasID3 = True, tagSize = 10, version = Some (ascii ''2.4.0''), flags = Some 0,
      majorVersion = Some 4, minorVersion = Some 0, existingFrames = []\<rparr>"
    by (simp add: emptyTag_def parseID3Header_def slice_buf_def ascii_def Let_def
        readSynchsafeInt_def readSynchsafeInt32_def byte_at_def dec.simps)
  have "parseFrames b (Some 4) 10 10 = Inr []" for b
    by (subst parseFrames.simps) simp
  then show "hasID3 (parseID3Header (emptyTag @ rest))"
    "tagSize (parseID3Header (emptyTag @ rest)) = 10"
    "parseID3Frames (emptyTag @ rest) (parseID3Header (emptyTag @ rest)) = Inr []"
    by (simp_all add: h parseID3Frames_def)
qed

lemma truncatedTag_parsed:
  "hasID3 (parseID3Header truncatedTag)"
  "parseID3Frames truncatedTag (parseID3Header truncatedTag) = Inl RangeError"
proof -
  have b: "truncatedTag = [0x49, 0x44, 0x33, 3, 0, 0, 0, 0, 0, 20, 0x54, 0x58]"
    by (simp add: truncatedTag_def ascii_def)
  have h: "hasID3 (parseID3Header truncatedTag) \<and> tagSize (parseID3Header truncatedTag) = 30 \<and>
           majorVersion (parseID3Header truncatedTag) = Some 3"
    by (simp add: b parseID3Header_def slice_buf_def ascii_def Let_def
        readSynchsafeInt_def readSynchsafeInt32_def byte_at_def)
  then show "hasID3 (parseID3Header truncatedTag)"
    by simp
  show "parseID3Frames truncatedTag (parseID3Header truncatedTag) = Inl RangeError"
    by (simp add: h parseID3Frames_def)
       (simp add: b parseFrames.simps slice_buf_def readFrameSize_def readUInt32BE_def)
qed

lemma example_frames:
  "list_all plainFrame [metadataFrame0, customFrameParsed, checksumFrame0, signatureFrame0]"
  "provenanceOwned metadataFrame0" "provenanceOwned checksumFrame0"
  "provenanceOwned signatureFrame0" "\<not> provenanceOwned customFrameParsed"
  by (simp_all add: plainFrame_def provenanceOwned_def metadataFrame0_def checksumFrame0_def
      signatureFrame0_def customFrameParsed_def createTextFrame_def createPrivateFrame_def
      AI_METADATA_FRAME_def AI_CHECKSUM_FRAME_def AI_SIGNATURE_FRAME_def startsWith_def
      is_ascii_def ascii_def)

lemma example_frames_size:
  "sum_list (map length (map frameBytes
     [metadataFrame0, customFrameParsed, checksumFrame0, signatureFrame0])) + 1024 < 2 ^ 28"
  "sum_list (map length (map frameBytes
     [metadataFrame0, checksumFrame0, signatureFrame0])) + 1024 < 2 ^ 28"
proof -
  have p: "plainFrame metadataFrame0" "plainFrame customFrameParsed" "plainFrame checksumFrame0"
    "plainFrame signatureFrame0"
    using example_frames(1) by simp_all
  have "length (frame_data metadataFrame0) = 15" "length (frame_data customFrameParsed) = 12"
    "length (frame_data checksumFrame0) = 15" "length (frame_data signatureFrame0) = 15"
    by (simp_all add: metadataFrame0_def checksumFrame0_def signatureFrame0_def
        customFrameParsed_def createTextFrame_def createPrivateFrame_def)
  then show "sum_list (map length (map frameBytes
     [metadataFrame0, customFrameParsed, checksumFrame0, signatureFrame0])) + 1024 < 2 ^ 28"
    "sum_list (map length (map frameBytes
     [metadataFrame0, checksumFrame0, signatureFrame0])) + 1024 < 2 ^ 28"
    by (simp_all add: length_frameBytes p)
qed

text \<open>
  C5, as the code has it. Without an ID3 header the input is returned as it is. With
  one, and the frames parsed, exactly the provenance-owned frames are dropped, ownership
  being as the specification words it: when no frame is left, the result is the input
  after the declared tag size, and \<open>removeMetadata\<close> writes no header (whether those
  bytes start with a tag of their own is not looked at); otherwise it is the tag that
  \<open>_buildID3Tag\<close> builds from the frames left (at least one), followed by the input
  after the declared tag size. \<open>_createID3Tag\<close> ends in the same \<open>_buildID3Tag\<close>. An
  exception in the frame parser or in the builder is rethrown. On a tag built under
  version 2.4 from frames that it carries without loss, followed by any payload, the
  result is the payload when every frame is owned, and else the tag built from the
  frames that are not owned, in their order, followed by the payload.
\<close>

theorem ID3_removeMetadata_contract:
  "(\<not> hasID3 (parseID3Header buf) \<longrightarrow> ID3_removeMetadata opts buf = Inr buf) \<and>
   (hasID3 (parseID3Header buf) \<and> parseID3Frames buf (parseID3Header buf) = Inr frames \<longrightarrow>
      (list_all provenanceOwned frames \<longrightarrow>
         ID3_removeMetadata opts buf = Inr (drop (tagSize (parseID3Header buf)) buf)) \<and>
      (\<not> list_all provenanceOwned frames \<longrightarrow>
         filter (\<lambda>fr. \<not> provenanceOwned fr) frames \<noteq> [] \<and>
         ID3_removeMetadata opts buf =
           wrap ''Failed to remove ID3 metadata: ''
             (map_sum id (\<lambda>tag. tag @ drop (tagSize (parseID3Header buf)) buf)
                (buildID3Tag opts (filter (\<lambda>fr. \<not> provenanceOwned fr) frames))))) \<and>
   (hasID3 (parseID3Header buf) \<and> parseID3Frames buf (parseID3Header buf) = Inl e \<longrightarrow>
      ID3_removeMetadata opts buf = Inl (Wrapped ''Failed to remove ID3 metadata: '' e)) \<and>
   (privateKey options = None \<longrightarrow>
      createID3Tag L opts metadata existing options =
        buildID3Tag opts
          ((if id3_preserveExisting opts
            then filter (\<lambda>fr. \<not> provenanceOwned fr) existing else []) @
           [createTextFrame AI_METADATA_FRAME (ascii ''AI_METADATA'') (JSON_stringify L metadata)] @
           (if includeChecksum options
            then [createTextFrame AI_CHECKSUM_FRAME (ascii ''AI_CHECKSUM'')
                    (sha256_hex L (JSON_stringify L metadata))]
            else []))) \<and>
   (id3_version opts = ascii ''2.4'' \<and> list_all plainFrame frs \<and>
    sum_list (map length (map frameBytes frs)) + 1024 < 2 ^ 28 \<longrightarrow>
      ID3_removeMetadata opts (builtTag frs @ payload) =
        Inr (if list_all provenanceOwned frs then payload
             else builtTag (filter (\<lambda>fr. \<not> provenanceOwned fr) frs) @ payload))"
  using ID3_removeMetadata_cases [of buf opts frames e options L metadata existing]
    ID3_remove_owned [of opts frs payload]
  unfolding isAIMetadataFrame_eq by blast

text \<open>
  The claim as stated fails on two tags with no frame, one after the other: a tag
  exists, no frame remains, and what \<open>removeMetadata\<close> returns starts with an ID3 header
  and is a tag with no frame.
\<close>

theorem ID3_remove_leaves_empty_tag:
  "hasID3 (parseID3Header (emptyTag @ emptyTag)) \<and>
   parseID3Frames (emptyTag @ emptyTag) (parseID3Header (emptyTag @ emptyTag)) = Inr [] \<and>
   ID3_removeMetadata id3_defaults (emptyTag @ emptyTag) = Inr emptyTag \<and>
   hasID3 (parseID3Header emptyTag) \<and>
   tagSize (parseID3Header emptyTag) = length emptyTag \<and>
   parseID3Frames emptyTag (parseID3Header emptyTag) = Inr []"
proof -
  have "ID3_removeMetadata id3_defaults (emptyTag @ emptyTag) = Inr emptyTag"
    using emptyTag_parsed [of emptyTag]
    by (simp add: ID3_removeMetadata_def slice_from_def wrap_def) (simp add: emptyTag_def)
  moreover have "length emptyTag = 10"
    by (simp add: emptyTag_def)
  ultimately show ?thesis
    using emptyTag_parsed [of emptyTag] emptyTag_parsed [of "[]"] by simp
qed

text \<open>
  The cases on examples: no tag; a tag with a provenance frame only, which leaves the
  three bytes of audio; a tag with a third-party frame, which is rebuilt with its frame
  and 1024 bytes of padding; a tag cut off in a frame header, where the parser throws;
  the frames that embedding puts before the record; a built tag with the record, a
  third-party frame, a checksum and a signature, of which the third-party frame alone is
  left; and a built tag whose three frames are all owned.
\<close>

theorem ID3_removeMetadata_contract_witness:
  "ID3_removeMetadata id3_defaults [1, 2, 3] = Inr [1, 2, 3] \<and>
   ID3_removeMetadata id3_defaults provenanceTag = Inr [1, 2, 3] \<and>
   ID3_removeMetadata id3_defaults customTag =
     Inr (ascii ''ID3'' @ [4, 0, 0, 0, 0, 8, 22] @ customFrame @ alloc 1024 @ [1, 2, 3]) \<and>
   ID3_removeMetadata id3_defaults truncatedTag =
     Inl (Wrapped ''Failed to remove ID3 metadata: '' RangeError) \<and>
   createID3Tag lib0 id3_defaults record0 [signatureFrame0, customFrameParsed] embed_defaults =
     buildID3Tag id3_defaults
       [customFrameParsed,
        createTextFrame AI_METADATA_FRAME (ascii ''AI_METADATA'') (json_text record0),
        createTextFrame AI_CHECKSUM_FRAME (ascii ''AI_CHECKSUM'') (sum_hex (json_text record0))] \<and>
   ID3_removeMetadata id3_defaults
     (builtTag [metadataFrame0, customFrameParsed, checksumFrame0, signatureFrame0] @ [1, 2, 3]) =
     Inr (builtTag [customFrameParsed] @ [1, 2, 3]) \<and>
   ID3_removeMetadata id3_defaults
     (builtTag [metadataFrame0, checksumFrame0, signatureFrame0] @ [1, 2, 3]) = Inr [1, 2, 3]"
proof -
  let ?meta = "\<lparr>frame_id = ascii ''TXXX'', frame_size = 15, frame_flags = Some [0, 0],
                frame_data = [3] @ ascii ''AI_METADATA'' @ [0] @ ascii ''{}''\<rparr>"
  let ?custom = "\<lparr>frame_id = ascii ''TXXX'', frame_size = 12, frame_flags = Some [0, 0],
                  frame_data = [3] @ ascii ''CustomTag'' @ [0] @ ascii ''x''\<rparr>"
  have a: "\<not> hasID3 (parseID3Header [1, 2, 3])"
    by (simp add: hasID3_iff)
  have b: "drop 35 provenanceTag = [1, 2, 3]" "drop 32 customTag = [1, 2, 3]"
    by (simp_all add: provenanceTag_bytes customTag_bytes)
  have o: "provenanceOwned ?meta" "\<not> provenanceOwned ?custom"
    by (simp_all add: provenanceOwned_def startsWith_def ascii_def)
  have v: "id3_version id3_defaults = ascii ''2.4''" "id3_preserveExisting id3_defaults"
    "privateKey embed_defaults = None" "includeChecksum embed_defaults"
    by (simp_all add: id3_defaults_def embed_defaults_def)
  have l: "JSON_stringify lib0 = json_text" "sha256_hex lib0 = sum_hex"
    by (simp_all add: lib0_def)
  have p: "list_all plainFrame [metadataFrame0, checksumFrame0, signatureFrame0]"
    using example_frames(1) by simp
  have 1: "ID3_removeMetadata id3_defaults [1, 2, 3] = Inr [1, 2, 3]"
    using a ID3_removeMetadata_contract [where buf = "[1, 2, 3]" and opts = id3_defaults]
    by simp
  have 2: "ID3_removeMetadata id3_defaults provenanceTag = Inr [1, 2, 3]"
    using b o provenanceTag_header provenanceTag_frames
      ID3_removeMetadata_contract [where buf = provenanceTag and opts = id3_defaults
        and frames = "[?meta]"]
    by simp
  have 3: "ID3_removeMetadata id3_defaults customTag =
     Inr (ascii ''ID3'' @ [4, 0, 0, 0, 0, 8, 22] @ customFrame @ alloc 1024 @ [1, 2, 3])"
    using b o customTag_header customTag_frames customFrame_built
      ID3_removeMetadata_contract [where buf = customTag and opts = id3_defaults
        and frames = "[?custom]"]
    by (simp add: wrap_def)
  have 4: "ID3_removeMetadata id3_defaults truncatedTag =
     Inl (Wrapped ''Failed to remove ID3 metadata: '' RangeError)"
    using truncatedTag_parsed
      ID3_removeMetadata_contract [where buf = truncatedTag and opts = id3_defaults
        and e = RangeError]
    by simp
  have 5: "createID3Tag lib0 id3_defaults record0 [signatureFrame0, customFrameParsed]
             embed_defaults =
     buildID3Tag id3_defaults
       [customFrameParsed,
        createTextFrame AI_METADATA_FRAME (ascii ''AI_METADATA'') (json_text record0),
        createTextFrame AI_CHECKSUM_FRAME (ascii ''AI_CHECKSUM'') (sum_hex (json_text record0))]"
    using v example_frames(4,5)
      ID3_removeMetadata_contract [where opts = id3_defaults and options = embed_defaults
        and L = lib0 and metadata = record0 and existing = "[signatureFrame0, customFrameParsed]"]
    by (simp add: l)
  have 6: "ID3_removeMetadata id3_defaults
     (builtTag [metadataFrame0, customFrameParsed, checksumFrame0, signatureFrame0] @ [1, 2, 3]) =
     Inr (builtTag [customFrameParsed] @ [1, 2, 3])"
    using v(1) example_frames example_frames_size(1)
      ID3_removeMetadata_contract [where opts = id3_defaults and payload = "[1, 2, 3]"
        and frs = "[metadataFrame0, customFrameParsed, checksumFrame0, signatureFrame0]"]
    by simp
  have 7: "ID3_removeMetadata id3_defaults
     (builtTag [metadataFrame0, checksumFrame0, signatureFrame0] @ [1, 2, 3]) = Inr [1, 2, 3]"
    using v(1) p example_frames(2,3,4) example_frames_size(2)
      ID3_removeMetadata_contract [where opts = id3_defaults and payload = "[1, 2, 3]"
        and frs = "[metadataFrame0, checksumFrame0, signatureFrame0]"]
    by simp
  from 1 2 3 4 5 6 7 show ?thesis
    by blast
qed

end
